theory Spec2Isabelle
  imports Main "HOL-Library.Word" "HOL-Library.Char_ord" "HOL-Library.List_Lexorder"
    "HOL-Library.Sublist"
begin

unbundle bit_operations_syntax

section \<open>Go strings\<close>

text \<open>
  A Go string is a sequence of bytes; \<^typ>\<open>string\<close> (a list of 8-bit characters) is
  exactly that. The functions of Go's \<^verbatim>\<open>strings\<close> package that the repository calls are
  written out from the package:
  \<^verbatim>\<open>HasPrefix(s, p) = len(s) >= len(p) && s[:len(p)] == p\<close>,
  \<^verbatim>\<open>HasSuffix(s, x) = len(s) >= len(x) && s[len(s)-len(x):] == x\<close>,
  \<^verbatim>\<open>TrimPrefix\<close> and \<^verbatim>\<open>TrimSuffix\<close> cut the prefix (suffix) when it is there.
\<close>

definition HasPrefix :: "string \<Rightarrow> string \<Rightarrow> bool" where
  "HasPrefix s pre = (length pre \<le> length s \<and> take (length pre) s = pre)"

definition HasSuffix :: "string \<Rightarrow> string \<Rightarrow> bool" where
  "HasSuffix s suf = (length suf \<le> length s \<and> drop (length s - length suf) s = suf)"

definition TrimPrefix :: "string \<Rightarrow> string \<Rightarrow> string" where
  "TrimPrefix s pre = (if HasPrefix s pre then drop (length pre) s else s)"

definition TrimSuffix :: "string \<Rightarrow> string \<Rightarrow> string" where
  "TrimSuffix s suf = (if HasSuffix s suf then take (length s - length suf) s else s)"

text \<open>
  \<^verbatim>\<open>strings.TrimSpace\<close> cuts the leading and the trailing white space of a string, as
  \<^verbatim>\<open>unicode.IsSpace\<close> defines it, decoding the bytes as UTF-8. The white space code points
  are U+0009 to U+000D, U+0020, U+0085, U+00A0, U+1680, U+2000 to U+200A, U+2028, U+2029,
  U+202F, U+205F and U+3000; \<open>space_encodings\<close> lists their UTF-8 encodings. A string starts
  (ends) with a white space rune exactly when one of these byte sequences is a prefix
  (suffix) of it: a byte that is no part of a valid encoding decodes to the error rune,
  which is no white space, and stops the trimming.
\<close>

definition space_encodings :: "string list" where
  "space_encodings =
     [[CHR 0x09], [CHR 0x0A], [CHR 0x0B], [CHR 0x0C], [CHR 0x0D], [CHR 0x20],
      [CHR 0xC2, CHR 0x85], [CHR 0xC2, CHR 0xA0], [CHR 0xE1, CHR 0x9A, CHR 0x80],
      [CHR 0xE2, CHR 0x80, CHR 0x80], [CHR 0xE2, CHR 0x80, CHR 0x81],
      [CHR 0xE2, CHR 0x80, CHR 0x82], [CHR 0xE2, CHR 0x80, CHR 0x83],
      [CHR 0xE2, CHR 0x80, CHR 0x84], [CHR 0xE2, CHR 0x80, CHR 0x85],
      [CHR 0xE2, CHR 0x80, CHR 0x86], [CHR 0xE2, CHR 0x80, CHR 0x87],
      [CHR 0xE2, CHR 0x80, CHR 0x88], [CHR 0xE2, CHR 0x80, CHR 0x89],
      [CHR 0xE2, CHR 0x80, CHR 0x8A], [CHR 0xE2, CHR 0x80, CHR 0xA8],
      [CHR 0xE2, CHR 0x80, CHR 0xA9], [CHR 0xE2, CHR 0x80, CHR 0xAF],
      [CHR 0xE2, CHR 0x81, CHR 0x9F], [CHR 0xE3, CHR 0x80, CHR 0x80]]"

definition leading_space :: "string \<Rightarrow> nat" where
  "leading_space s = (case find (HasPrefix s) space_encodings of None \<Rightarrow> 0 | Some e \<Rightarrow> length e)"

definition trailing_space :: "string \<Rightarrow> nat" where
  "trailing_space s = (case find (HasSuffix s) space_encodings of None \<Rightarrow> 0 | Some e \<Rightarrow> length e)"

function TrimLeftSpace :: "string \<Rightarrow> string" where
  "TrimLeftSpace s = (if 0 < leading_space s \<and> leading_space s \<le> length s
                      then TrimLeftSpace (drop (leading_space s) s) else s)"
  by pat_completeness auto
termination
  by (relation "measure length") auto

declare TrimLeftSpace.simps [simp del]

function TrimRightSpace :: "string \<Rightarrow> string" where
  "TrimRightSpace s = (if 0 < trailing_space s \<and> trailing_space s \<le> length s
                       then TrimRightSpace (take (length s - trailing_space s) s) else s)"
  by pat_completeness auto
termination
  by (relation "measure length") auto

declare TrimRightSpace.simps [simp del]

definition TrimSpace :: "string \<Rightarrow> string" where
  "TrimSpace s = TrimRightSpace (TrimLeftSpace s)"

section \<open>Errors and the client\<close>

text \<open>
  A Go function that returns \<^verbatim>\<open>(value, error)\<close> is a function into \<open>error + value\<close>.
  \<open>NotAValidRef\<close> is the error ShowRef builds itself
  (\<^verbatim>\<open>fmt.Errorf("fatal: '%v' - not a valid ref", ref)\<close>); \<open>Failure\<close> is an error that a
  function outside these sources returned, with its message; \<open>Panic\<close> is a run-time panic
  (a nil dereference, an index out of range).
\<close>

datatype error = NotAValidRef string | Failure string | Panic string

type_synonym Sha1 = string
type_synonym File = string
type_synonym IndexPath = string
type_synonym EntryMode = int

text \<open>
  Modelled from the spec: the constants of the file modes are not under src/; the spec
  (section 2, item 3) gives their octal values 100644, 100755, 120000, 160000 and 040000.
\<close>

definition ModeBlob :: EntryMode where "ModeBlob = 33188"
definition ModeExec :: EntryMode where "ModeExec = 33261"
definition ModeSymlink :: EntryMode where "ModeSymlink = 40960"
definition ModeCommit :: EntryMode where "ModeCommit = 57344"
definition ModeTree :: EntryMode where "ModeTree = 16384"

text \<open>
  An index entry: the path and, of the fixed entry, the fields the sources read
  (the stat metadata is only read by \<^verbatim>\<open>CompareStat\<close>, a parameter below).
\<close>

record IndexEntry =
  PathName :: IndexPath
  Mode :: EntryMode
  Fsize :: int
  Sha1 :: Sha1

text \<open>
  What \<^verbatim>\<open>Lstat\<close> returns: the mode bits of Go's \<^verbatim>\<open>os.FileMode\<close> (a uint32) and the size.
  \<open>IsDir\<close>, \<open>IsRegular\<close> and \<open>Perm\<close> are the methods of \<^verbatim>\<open>os.FileMode\<close>: the bit
  \<^verbatim>\<open>ModeDir\<close>, the mask \<^verbatim>\<open>ModeType\<close> and the mask \<^verbatim>\<open>ModePerm\<close> (octal 777).
\<close>

record FileInfo =
  StatMode :: "32 word"
  StatSize :: int

definition IsDir :: "32 word \<Rightarrow> bool" where
  "IsDir m = (m AND 0x80000000 \<noteq> 0)"

definition IsRegular :: "32 word \<Rightarrow> bool" where
  "IsRegular m = (m AND 0x8F280000 = 0)"

definition Perm :: "32 word \<Rightarrow> 32 word" where
  "Perm m = m AND 0x1FF"

record LsFilesOptions =
  Cached :: bool
  Deleted :: bool
  Modified :: bool

text \<open>
  The client. \<open>GitDir\<close> is its git directory. The other fields are the parameters of
  the model: what the file system answers and what the functions of the repository that
  are not under src/ return. Nothing is assumed about them.
\<close>

record Client =
  GitDir :: string
  Exists :: "File \<Rightarrow> bool"
  ReadFile :: "string \<Rightarrow> error + string"
  ReadDir :: "string \<Rightarrow> error + string list"
  Walk :: "string \<Rightarrow> (string \<times> bool option) list"
  SymbolicRefGet :: "string \<Rightarrow> error + string"
  RefSpecSha1 :: "string \<Rightarrow> error + Sha1"
  Sha1FromString :: "string \<Rightarrow> error + Sha1"
  Sha1Type :: "Sha1 \<Rightarrow> string"
  RevParse :: "string list \<Rightarrow> error + Sha1 list"
  GetHeadCommit :: "error + Sha1"
  GetHeadID :: "error + string"
  WriteTree :: string
  CommitTree :: "string list \<Rightarrow> string"
  LsFiles :: "LsFilesOptions \<Rightarrow> File list \<Rightarrow> error + IndexEntry list"
  FilePath :: "IndexPath \<Rightarrow> error + File"
  Lstat :: "File \<Rightarrow> error + FileInfo"
  CompareStat :: "IndexEntry \<Rightarrow> File \<Rightarrow> error option"
  HashFile :: "string \<Rightarrow> File \<Rightarrow> error + Sha1"

text \<open>
  \<open>Walk c root\<close> lists what \<^verbatim>\<open>filepath.Walk\<close> visits under \<open>root\<close>, in order: the path
  and \<^verbatim>\<open>info.IsDir()\<close>, or \<open>None\<close> where the walk has no \<^verbatim>\<open>FileInfo\<close> for the path
  (its \<^verbatim>\<open>Lstat\<close> failed and \<^verbatim>\<open>info\<close> is nil). \<open>RevParse\<close> gives the ids of the parsed
  revisions.

  Modelled from the spec: \<^verbatim>\<open>GitDir.File\<close> is not under src/; the spec (section 4.3) has a
  ref read from the file \<^verbatim>\<open><gitdir>/<name>\<close>.
\<close>

definition GitDirFile :: "string \<Rightarrow> File \<Rightarrow> File" where
  "GitDirFile g f = g @ ''/'' @ f"

section \<open>RefSpec\<close>

type_synonym RefSpec = string

text \<open>\<^verbatim>\<open>func (r RefSpec) String() string\<close>\<close>

definition RefSpec_String :: "RefSpec \<Rightarrow> string" where
  "RefSpec_String r = (if length r < 1 then [] else TrimSpace (TrimSuffix r [CHR 0x00]))"

text \<open>\<^verbatim>\<open>func (r RefSpec) File(c *Client) File\<close>\<close>

definition RefSpec_File :: "Client \<Rightarrow> RefSpec \<Rightarrow> File" where
  "RefSpec_File c r = GitDirFile (GitDir c) (RefSpec_String r)"

section \<open>References (git/showref.go)\<close>

record Ref =
  Name :: string
  Value :: Sha1

text \<open>\<^verbatim>\<open>func (r Ref) Matches(pattern string) bool\<close>\<close>

definition Matches :: "Ref \<Rightarrow> string \<Rightarrow> bool" where
  "Matches r pattern = (Name r = pattern \<or> HasSuffix (Name r) (''/'' @ pattern))"

record ShowRefOptions =
  IncludeHead :: bool
  Tags :: bool
  Heads :: bool
  Dereference :: bool
  Sha1Only :: bool
  Verify :: bool
  Abbrev :: int
  Quiet :: bool
  ExcludeExisting :: string

text \<open>\<^verbatim>\<open>func parseRef(c *Client, filename string) (Ref, error)\<close>\<close>

definition parseRef :: "Client \<Rightarrow> string \<Rightarrow> error + Ref" where
  "parseRef c filename =
     (let refname = TrimPrefix filename ''/'' in
      case ReadFile c (GitDirFile (GitDir c) refname) of
        Inl e \<Rightarrow> Inl e
      | Inr data \<Rightarrow>
          if HasPrefix data ''ref: '' then
            (case SymbolicRefGet c refname of
               Inl e \<Rightarrow> Inl e
             | Inr deref \<Rightarrow>
                 (case RefSpecSha1 c deref of
                    Inl e \<Rightarrow> Inl e
                  | Inr sha1 \<Rightarrow> Inr \<lparr>Name = refname, Value = sha1\<rparr>))
          else
            (case Sha1FromString c data of
               Inl e \<Rightarrow> Inl e
             | Inr sha1 \<Rightarrow> Inr \<lparr>Name = refname, Value = sha1\<rparr>))"

text \<open>
  \<^verbatim>\<open>func getDeref(c *Client, opts ShowRefOptions, ref Ref) (*Ref, error)\<close>; the nil pointer
  is \<open>None\<close>. \<^verbatim>\<open>deref[0]\<close> panics on an empty slice.
\<close>

definition getDeref :: "Client \<Rightarrow> ShowRefOptions \<Rightarrow> Ref \<Rightarrow> error + Ref option" where
  "getDeref c opts ref =
     (if \<not> Dereference opts then Inr None
      else if Sha1Type c (Value ref) = ''tag'' then
        (case RevParse c [Name ref @ ''^0''] of
           Inl e \<Rightarrow> Inl e
         | Inr [] \<Rightarrow> Inl (Panic ''index out of range'')
         | Inr (i # _) \<Rightarrow> Inr (Some \<lparr>Name = Name ref @ ''^{}'', Value = i\<rparr>))
      else Inr None)"

text \<open>
  The steps that the four loops of ShowRef share: \<^verbatim>\<open>vals = append(vals, ref)\<close>, then the
  dereferenced ref when there is one; an error drops the refs collected so far, as
  \<^verbatim>\<open>return nil, err\<close> does.
\<close>

definition appendRef :: "Client \<Rightarrow> ShowRefOptions \<Rightarrow> Ref \<Rightarrow> Ref list \<Rightarrow> error + Ref list" where
  "appendRef c opts ref vals =
     (case getDeref c opts ref of
        Inl e \<Rightarrow> Inl e
      | Inr None \<Rightarrow> Inr (vals @ [ref])
      | Inr (Some deref) \<Rightarrow> Inr (vals @ [ref, deref]))"

text \<open>\<^verbatim>\<open>for _, p := range patterns { if ref.Matches(p) { ...; break } }\<close>\<close>

fun matchPatterns ::
  "Client \<Rightarrow> ShowRefOptions \<Rightarrow> Ref \<Rightarrow> string list \<Rightarrow> Ref list \<Rightarrow> error + Ref list" where
  "matchPatterns c opts ref [] vals = Inr vals"
| "matchPatterns c opts ref (p # ps) vals =
     (if Matches ref p then appendRef c opts ref vals else matchPatterns c opts ref ps vals)"

definition showOne ::
  "Client \<Rightarrow> ShowRefOptions \<Rightarrow> string list \<Rightarrow> Ref \<Rightarrow> Ref list \<Rightarrow> error + Ref list" where
  "showOne c opts patterns ref vals =
     (if length patterns = 0 then appendRef c opts ref vals
      else matchPatterns c opts ref patterns vals)"

text \<open>The loop of the \<^verbatim>\<open>Verify\<close> branch.\<close>

fun verifyRefs ::
  "Client \<Rightarrow> ShowRefOptions \<Rightarrow> string list \<Rightarrow> Ref list \<Rightarrow> error + Ref list" where
  "verifyRefs c opts [] vals = Inr vals"
| "verifyRefs c opts (ref # rest) vals =
     (if \<not> Exists c (GitDirFile (GitDir c) ref) then Inl (NotAValidRef ref)
      else case parseRef c ref of
        Inl e \<Rightarrow> Inl e
      | Inr r \<Rightarrow>
          (case appendRef c opts r vals of
             Inl e \<Rightarrow> Inl e
           | Inr vals' \<Rightarrow> verifyRefs c opts rest vals'))"

text \<open>
  The callback of \<^verbatim>\<open>filepath.Walk\<close>, run over the visited paths; the first error it returns
  ends the walk. \<^verbatim>\<open>info.IsDir()\<close> on a nil \<^verbatim>\<open>info\<close> panics.
\<close>

fun walkRefs ::
  "Client \<Rightarrow> ShowRefOptions \<Rightarrow> string list \<Rightarrow> (string \<times> bool option) list \<Rightarrow> Ref list
     \<Rightarrow> error + Ref list" where
  "walkRefs c opts patterns [] vals = Inr vals"
| "walkRefs c opts patterns ((path, info) # rest) vals =
     (case info of
        None \<Rightarrow> Inl (Panic ''nil pointer dereference'')
      | Some isdir \<Rightarrow>
          if isdir then walkRefs c opts patterns rest vals
          else
            (case parseRef c (TrimPrefix path (GitDir c)) of
               Inl e \<Rightarrow> Inl e
             | Inr ref \<Rightarrow>
                 (case showOne c opts patterns ref vals of
                    Inl e \<Rightarrow> Inl e
                  | Inr vals' \<Rightarrow> walkRefs c opts patterns rest vals')))"

text \<open>The loops over \<^verbatim>\<open>refs/heads\<close> and \<^verbatim>\<open>refs/tags\<close>; \<open>dir\<close> is the prefix of the names.\<close>

fun listRefs ::
  "Client \<Rightarrow> ShowRefOptions \<Rightarrow> string list \<Rightarrow> string \<Rightarrow> string list \<Rightarrow> Ref list
     \<Rightarrow> error + Ref list" where
  "listRefs c opts patterns dir [] vals = Inr vals"
| "listRefs c opts patterns dir (name # rest) vals =
     (case parseRef c (dir @ name) of
        Inl e \<Rightarrow> Inl e
      | Inr ref \<Rightarrow>
          (case showOne c opts patterns ref vals of
             Inl e \<Rightarrow> Inl e
           | Inr vals' \<Rightarrow> listRefs c opts patterns dir rest vals'))"

definition readAndList ::
  "Client \<Rightarrow> ShowRefOptions \<Rightarrow> string list \<Rightarrow> string \<Rightarrow> Ref list \<Rightarrow> error + Ref list" where
  "readAndList c opts patterns kind vals =
     (case ReadDir c (GitDirFile (GitDir c) (''refs/'' @ kind)) of
        Inl e \<Rightarrow> Inl e
      | Inr names \<Rightarrow> listRefs c opts patterns (''refs/'' @ kind @ ''/'') names vals)"

text \<open>\<^verbatim>\<open>func ShowRef(c *Client, opts ShowRefOptions, patterns []string) ([]Ref, error)\<close>\<close>

definition headRefs :: "Client \<Rightarrow> ShowRefOptions \<Rightarrow> Ref list" where
  "headRefs c opts =
     (if IncludeHead opts then
        (case GetHeadCommit c of
           Inr hcid \<Rightarrow> [\<lparr>Name = ''HEAD'', Value = hcid\<rparr>]
         | Inl e \<Rightarrow> [])
      else [])"

definition ShowRef :: "Client \<Rightarrow> ShowRefOptions \<Rightarrow> string list \<Rightarrow> error + Ref list" where
  "ShowRef c opts patterns =
     (if Verify opts then verifyRefs c opts patterns []
      else
        let vals = headRefs c opts in
        if \<not> Heads opts \<and> \<not> Tags opts then
          walkRefs c opts patterns (Walk c (GitDirFile (GitDir c) ''refs'')) vals
        else
          (case (if Heads opts then readAndList c opts patterns ''heads'' vals else Inr vals) of
             Inl e \<Rightarrow> Inl e
           | Inr vals' \<Rightarrow>
               if Tags opts then readAndList c opts patterns ''tags'' vals' else Inr vals'))"

section \<open>diff-files\<close>

text \<open>
  \<^verbatim>\<open>TreeEntry{idx.Sha1, idx.Mode}\<close> and
  \<^verbatim>\<open>HashDiff{idx.PathName, idxtree, fs, uint(idx.Fsize), uint(size)}\<close> are built by
  position in the source; the datatypes keep the positions. The zero \<^verbatim>\<open>TreeEntry{}\<close>
  has twenty zero bytes as its hash and mode 0.
\<close>

datatype TreeEntry = TreeEntry (EntrySha1: Sha1) (FileMode: EntryMode)

datatype HashDiff =
  HashDiff (DiffName: IndexPath) (IndexSide: TreeEntry) (FsSide: TreeEntry)
    (IndexSize: int) (FsSize: int)

definition emptyTreeEntry :: TreeEntry where
  "emptyTreeEntry = TreeEntry (replicate 20 (CHR 0x00)) 0"

text \<open>The conversion \<^verbatim>\<open>uint(x)\<close> of a signed 64-bit size wraps a negative value around.\<close>

definition uint_conv :: "int \<Rightarrow> int" where
  "uint_conv x = x mod 2 ^ 64"

record DiffFilesOptions =
  Patch :: bool
  NumContextLines :: int
  Raw :: bool
  ExitCode :: bool

text \<open>
  What the loop does besides building its result: the line it logs and the file it hashes.
  The state of the loop is the slice \<^verbatim>\<open>val\<close> and the effects so far.
\<close>

datatype effect = Logged File | Hashed File

type_synonym diff_state = "HashDiff list \<times> effect list"

definition deletedDiff :: "IndexEntry \<Rightarrow> HashDiff" where
  "deletedDiff idx =
     HashDiff (PathName idx) (TreeEntry (Sha1 idx) (Mode idx)) emptyTreeEntry (uint_conv (Fsize idx)) 0"

text \<open>The \<^verbatim>\<open>switch\<close> on the mode of the file, after the directory case.\<close>

definition fsMode :: "32 word \<Rightarrow> EntryMode" where
  "fsMode m = (if \<not> IsRegular m then ModeSymlink
               else if Perm m AND 0x40 \<noteq> 0 then ModeExec
               else ModeBlob)"

definition changedDiff :: "IndexEntry \<Rightarrow> FileInfo \<Rightarrow> HashDiff" where
  "changedDiff idx stat =
     HashDiff (PathName idx) (TreeEntry (Sha1 idx) (Mode idx))
       (TreeEntry (replicate 20 (CHR 0x00)) (fsMode (StatMode stat)))
       (uint_conv (Fsize idx)) (uint_conv (StatSize stat))"

text \<open>The body of \<^verbatim>\<open>for _, idx := range indexentries\<close>.\<close>

definition diffEntry :: "Client \<Rightarrow> IndexEntry \<Rightarrow> diff_state \<Rightarrow> diff_state" where
  "diffEntry c idx st =
     (case st of (val, effects) \<Rightarrow>
        (case FilePath c (PathName idx) of
           Inl e \<Rightarrow> (val @ [deletedDiff idx], effects)
         | Inr f \<Rightarrow>
             if \<not> Exists c f then (val @ [deletedDiff idx], effects)
             else
               (case Lstat c f of
                  Inl e \<Rightarrow> (val @ [deletedDiff idx], effects)
                | Inr stat \<Rightarrow>
                    if IsDir (StatMode stat) then (val @ [deletedDiff idx], effects)
                    else
                      (case CompareStat c idx f of
                         Some e \<Rightarrow> (val @ [changedDiff idx stat], effects @ [Logged f])
                       | None \<Rightarrow>
                           (case HashFile c ''blob'' f of
                              Inl e \<Rightarrow> (val @ [changedDiff idx stat], effects @ [Hashed f])
                            | Inr hash \<Rightarrow>
                                if hash \<noteq> Sha1 idx
                                then (val @ [changedDiff idx stat], effects @ [Hashed f])
                                else (val, effects @ [Hashed f]))))))"

fun diffLoop :: "Client \<Rightarrow> IndexEntry list \<Rightarrow> diff_state \<Rightarrow> diff_state" where
  "diffLoop c [] st = st"
| "diffLoop c (idx # rest) st = diffLoop c rest (diffEntry c idx st)"

text \<open>
  \<^verbatim>\<open>func DiffFiles(c *Client, opt DiffFilesOptions, paths []File) ([]HashDiff, error)\<close>,
  with the effects of the run beside its result.

  Modelled from the spec: \<^verbatim>\<open>ByName\<close> is not under src/; the spec (section 4.5, step 7) sorts
  the diffs by path, byte-lexicographically.
\<close>

definition lsOptions :: LsFilesOptions where
  "lsOptions = \<lparr>Cached = True, Deleted = True, Modified = True\<rparr>"

definition DiffFiles ::
  "Client \<Rightarrow> DiffFilesOptions \<Rightarrow> File list \<Rightarrow> (error + HashDiff list) \<times> effect list" where
  "DiffFiles c opt paths =
     (case LsFiles c lsOptions paths of
        Inl e \<Rightarrow> (Inl e, [])
      | Inr indexentries \<Rightarrow>
          (case diffLoop c indexentries ([], []) of
             (val, effects) \<Rightarrow> (Inr (sort_key DiffName val), effects)))"

section \<open>commit\<close>

text \<open>
  A Go slice is a window on a backing array: \<^verbatim>\<open>args\<close> has its elements, and between its
  length and its capacity the array holds further elements, \<open>spare\<close>. The slice expression
  \<^verbatim>\<open>args[idx:idx+2]\<close> is bounded by the capacity, not by the length: it panics when
  \<^verbatim>\<open>idx+2\<close> is beyond \<^verbatim>\<open>cap(args)\<close>, and otherwise reads the array, also past the length.

  \<^verbatim>\<open>for idx, val := range args\<close>, collecting \<^verbatim>\<open>args[idx:idx+2]\<close> after each \<^verbatim>\<open>-m\<close> and
  \<^verbatim>\<open>-F\<close>.
\<close>

fun collectMessages ::
  "string list \<Rightarrow> string list \<Rightarrow> nat list \<Rightarrow> string list \<Rightarrow> error + string list" where
  "collectMessages args spare [] messages = Inr messages"
| "collectMessages args spare (idx # idxs) messages =
     (if args ! idx = ''-m'' \<or> args ! idx = ''-F'' then
        (if idx + 2 \<le> length args + length spare
         then collectMessages args spare idxs (messages @ take 2 (drop idx (args @ spare)))
         else Inl (Panic ''slice bounds out of range''))
      else collectMessages args spare idxs messages)"

text \<open>The calls Commit makes to the functions that are not under src/, in order.\<close>

datatype call =
  GetHeadIDCall | WriteTreeCall | CommitTreeCall "string list" | UpdateRefCall "string list"

text \<open>
  \<^verbatim>\<open>func Commit(c *Client, repo *libgit.Repository, args []string) string\<close>; the slice
  \<^verbatim>\<open>args\<close> is given by its elements and the spare elements of its backing array.
\<close>

definition Commit :: "Client \<Rightarrow> string list \<Rightarrow> string list \<Rightarrow> error + string \<times> call list" where
  "Commit c args spare =
     (let commitTreeArgs =
            (case GetHeadID c of Inr parentCommit \<Rightarrow> [''-p'', parentCommit] | Inl e \<Rightarrow> [])
      in case collectMessages args spare [0..<length args] [] of
           Inl e \<Rightarrow> Inl e
         | Inr messages \<Rightarrow>
             (let commitTreeArgs = commitTreeArgs @ messages;
                  treeSha1 = WriteTree c;
                  commitTreeArgs = commitTreeArgs @ [treeSha1];
                  commitSha1 = CommitTree c commitTreeArgs
              in Inr (commitSha1,
                      [GetHeadIDCall, WriteTreeCall, CommitTreeCall commitTreeArgs,
                       UpdateRefCall [''-m'', ''commit from go-git'', ''HEAD'', commitSha1]])))"

text \<open>
  Modelled from the spec: \<^verbatim>\<open>CommitTree\<close> is not under src/. The spec (section 4.7, step 4)
  has the commit object hold one \<^verbatim>\<open>parent\<close> line for each parent; the parents of the
  commit that \<^verbatim>\<open>CommitTree\<close> builds are the values of the \<^verbatim>\<open>-p\<close> options of its argument
  list, where each of the options \<^verbatim>\<open>-p\<close>, \<^verbatim>\<open>-m\<close> and \<^verbatim>\<open>-F\<close> takes the next argument as
  its value.
\<close>

fun CommitTree_parents :: "string list \<Rightarrow> string list" where
  "CommitTree_parents [] = []"
| "CommitTree_parents [a] = []"
| "CommitTree_parents (a # v # rest) =
     (if a = ''-p'' then v # CommitTree_parents rest
      else if a = ''-m'' \<or> a = ''-F'' then CommitTree_parents rest
      else CommitTree_parents (v # rest))"

section \<open>The hash primitive and the tree writer\<close>

text \<open>
  Modelled from the spec: the hash primitive (\<^verbatim>\<open>HashReader\<close>) and the tree writer
  (\<^verbatim>\<open>writeIndexEntries\<close>) are not under src/, only the test of the tree writer is. The
  spec (sections 3 and 4.1) has a hash be the SHA-1 of the header
  \<^verbatim>\<open>"<kind> <length>\0"\<close> followed by the bytes; SHA-1 is written out below from its
  standard, on 32-bit words kept as integers with the wrap-around \<open>mod 2 ^ 32\<close>.
\<close>

definition add32 :: "int \<Rightarrow> int \<Rightarrow> int" where
  "add32 a b = (a + b) mod 4294967296"

definition not32 :: "int \<Rightarrow> int" where
  "not32 a = 4294967295 - a"

definition rotl32 :: "nat \<Rightarrow> int \<Rightarrow> int" where
  "rotl32 n a = (a * 2 ^ n) mod 4294967296 + a div 2 ^ (32 - n)"

definition be32 :: "char \<Rightarrow> char \<Rightarrow> char \<Rightarrow> char \<Rightarrow> int" where
  "be32 a b c d = 16777216 * of_char a + 65536 * of_char b + 256 * of_char c + of_char d"

fun words_of :: "string \<Rightarrow> int list" where
  "words_of (a # b # c # d # rest) = be32 a b c d # words_of rest"
| "words_of _ = []"

definition u32_bytes :: "int \<Rightarrow> string" where
  "u32_bytes w = [char_of (w div 16777216), char_of (w div 65536), char_of (w div 256), char_of w]"

definition u64_bytes :: "int \<Rightarrow> string" where
  "u64_bytes n = u32_bytes (n div 4294967296) @ u32_bytes (n mod 4294967296)"

definition sha1_pad :: "string \<Rightarrow> string" where
  "sha1_pad m =
     m @ [CHR 0x80] @ replicate ((119 - length m mod 64) mod 64) (CHR 0x00)
       @ u64_bytes (8 * int (length m))"

text \<open>
  The message schedule, most recent word first: word \<open>t\<close> is the rotation of the
  exclusive or of the words \<open>t - 3\<close>, \<open>t - 8\<close>, \<open>t - 14\<close> and \<open>t - 16\<close>.
\<close>

fun expand :: "nat \<Rightarrow> int list \<Rightarrow> int list" where
  "expand 0 ws = ws"
| "expand (Suc n) ws = expand n (rotl32 1 (ws ! 2 XOR ws ! 7 XOR ws ! 13 XOR ws ! 15) # ws)"

definition sha1_f :: "nat \<Rightarrow> int \<Rightarrow> int \<Rightarrow> int \<Rightarrow> int" where
  "sha1_f t b c d =
     (if t < 20 then (b AND c) OR (not32 b AND d)
      else if t < 40 then b XOR c XOR d
      else if t < 60 then (b AND c) OR (b AND d) OR (c AND d)
      else b XOR c XOR d)"

definition sha1_k :: "nat \<Rightarrow> int" where
  "sha1_k t = (if t < 20 then 0x5A827999 else if t < 40 then 0x6ED9EBA1
               else if t < 60 then 0x8F1BBCDC else 0xCA62C1D6)"

type_synonym sha1_state = "int \<times> int \<times> int \<times> int \<times> int"

fun rounds :: "nat \<Rightarrow> int list \<Rightarrow> sha1_state \<Rightarrow> sha1_state" where
  "rounds t [] s = s"
| "rounds t (w # ws) (a, b, c, d, e) =
     rounds (Suc t) ws
       (add32 (add32 (add32 (add32 (rotl32 5 a) (sha1_f t b c d)) e) (sha1_k t)) w,
        a, rotl32 30 b, c, d)"

fun sha1_block :: "sha1_state \<Rightarrow> string \<Rightarrow> sha1_state" where
  "sha1_block (h0, h1, h2, h3, h4) blk =
     (case rounds 0 (rev (expand 64 (rev (words_of blk)))) (h0, h1, h2, h3, h4) of
        (a, b, c, d, e) \<Rightarrow> (add32 h0 a, add32 h1 b, add32 h2 c, add32 h3 d, add32 h4 e))"

function sha1_blocks :: "sha1_state \<Rightarrow> string \<Rightarrow> sha1_state" where
  "sha1_blocks s m =
     (if length m < 64 then s else sha1_blocks (sha1_block s (take 64 m)) (drop 64 m))"
  by pat_completeness auto
termination
  by (relation "measure (\<lambda>(s, m). length m)") auto

declare sha1_blocks.simps [simp del]

definition sha1 :: "string \<Rightarrow> Sha1" where
  "sha1 m =
     (case sha1_blocks (0x67452301, 0xEFCDAB89, 0x98BADCFE, 0x10325476, 0xC3D2E1F0) (sha1_pad m) of
        (h0, h1, h2, h3, h4) \<Rightarrow>
          u32_bytes h0 @ u32_bytes h1 @ u32_bytes h2 @ u32_bytes h3 @ u32_bytes h4)"

text \<open>The digits of a number in a base up to ten, as ASCII.\<close>

function digits :: "int \<Rightarrow> int \<Rightarrow> string" where
  "digits b n = (if n < b \<or> b < 2 then [char_of (48 + n)]
                 else digits b (n div b) @ [char_of (48 + n mod b)])"
  by pat_completeness auto
termination
proof (relation "measure (\<lambda>(b, n). nat n)")
  show "wf (measure (\<lambda>(b, n). nat n))"
    by simp
next
  fix b n :: int
  assume a: "\<not> (n < b \<or> b < 2)"
  then have "0 < n" and "n div b < n"
    by (auto intro: int_div_less_self)
  then show "((b, n div b), (b, n)) \<in> measure (\<lambda>(b, n). nat n)"
    by simp
qed

declare digits.simps [simp del]

definition HashObject :: "string \<Rightarrow> string \<Rightarrow> Sha1" where
  "HashObject kind bytes =
     sha1 (kind @ '' '' @ digits 10 (int (length bytes)) @ [CHR 0x00] @ bytes)"

text \<open>The string form of a hash: forty lower-case hexadecimal digits.\<close>

definition hexdigit :: "nat \<Rightarrow> char" where
  "hexdigit n = ''0123456789abcdef'' ! n"

definition Sha1_String :: "Sha1 \<Rightarrow> string" where
  "Sha1_String h = concat (map (\<lambda>c. [hexdigit (of_char c div 16), hexdigit (of_char c mod 16)]) h)"

text \<open>
  Modelled from the spec: the object store (section 4.2): \<open>write\<close> stores the bytes under
  their hash and says whether the object was already there.
\<close>

type_synonym store = "Sha1 \<Rightarrow> (string \<times> string) option"

definition WriteObject :: "store \<Rightarrow> string \<Rightarrow> string \<Rightarrow> (Sha1 \<times> bool) \<times> store" where
  "WriteObject st kind bytes =
     (let h = HashObject kind bytes in ((h, st h \<noteq> None), st(h \<mapsto> (kind, bytes))))"

text \<open>
  Modelled from the spec: the tree writer (section 4.6). The entries of one tree are
  triples of mode, name and hash. \<open>tree_objects pfx entries\<close> is the id of the tree of
  the entries under the prefix \<open>pfx\<close>, with the tree objects to write, subtrees first:
  the entries are partitioned by their first path component after the prefix; a component
  that is a full final name gives a file entry, a component followed by more of a path
  gives a subtree entry with the id of the recursion on the extended prefix; the entries
  are sorted as if every subtree name ended with \<^verbatim>\<open>/\<close>, and concatenated as
  \<^verbatim>\<open>"<mode-octal> <name>\0<20-byte-hash>"\<close>. The mode is written as the on-disk tree
  format has it, in octal digits without a leading zero: \<^verbatim>\<open>40000\<close> for a subtree.
\<close>

type_synonym tree_item = "EntryMode \<times> string \<times> Sha1"

definition item_key :: "tree_item \<Rightarrow> string" where
  "item_key it = (case it of (m, name, h) \<Rightarrow> if m = ModeTree then name @ ''/'' else name)"

definition encode_item :: "tree_item \<Rightarrow> string" where
  "encode_item it = (case it of (m, name, h) \<Rightarrow> digits 8 m @ '' '' @ name @ [CHR 0x00] @ h)"

definition rel_path :: "string \<Rightarrow> IndexEntry \<Rightarrow> string" where
  "rel_path pfx e = drop (length pfx) (PathName e)"

definition first_component :: "string \<Rightarrow> string" where
  "first_component p = takeWhile (\<lambda>c. c \<noteq> CHR ''/'') p"

function tree_objects :: "string \<Rightarrow> IndexEntry list \<Rightarrow> Sha1 \<times> (string \<times> string) list" where
  "tree_objects pfx entries =
     (let under = filter (\<lambda>e. HasPrefix (PathName e) pfx) entries;
          names = remdups (map (\<lambda>e. first_component (rel_path pfx e)) under);
          parts = map (\<lambda>name.
                    (let files = filter (\<lambda>e. rel_path pfx e = name) under;
                         subs = filter (\<lambda>e. HasPrefix (rel_path pfx e) (name @ ''/'')) under
                     in if subs = [] then (map (\<lambda>e. (Mode e, name, Sha1 e)) files, [])
                        else (case tree_objects (pfx @ name @ ''/'') subs of
                                (tid, objs) \<Rightarrow>
                                  (map (\<lambda>e. (Mode e, name, Sha1 e)) files @ [(ModeTree, name, tid)],
                                   objs)))) names;
          bytes = concat (map encode_item (sort_key item_key (concat (map fst parts))))
      in (HashObject ''tree'' bytes, concat (map snd parts) @ [(''tree'', bytes)]))"
  by pat_completeness auto
termination
proof (relation "measure (\<lambda>(pfx, entries). sum_list (map (\<lambda>e. length (PathName e)) entries) - length pfx)")
  show "wf (measure (\<lambda>(pfx, entries). sum_list (map (\<lambda>e. length (PathName e)) entries) - length pfx))"
    by simp
next
  fix pfx :: string and entries :: "IndexEntry list" and under names name files subs
  assume under: "under = filter (\<lambda>e. HasPrefix (PathName e) pfx) entries"
    and subs: "subs = filter (\<lambda>e. HasPrefix (rel_path pfx e) (name @ ''/'')) under"
    and ne: "subs \<noteq> []"
  let ?len = "\<lambda>e. length (PathName e)"
  from ne obtain e where e: "e \<in> set subs"
    by (cases subs) auto
  with under subs have "HasPrefix (PathName e) pfx" "HasPrefix (rel_path pfx e) (name @ ''/'')"
    by auto
  then have "length pfx + length name + 1 \<le> ?len e"
    by (auto simp: HasPrefix_def rel_path_def)
  moreover have "?len e \<le> sum_list (map ?len subs)"
    using e by (simp add: member_le_sum_list)
  moreover have "sum_list (map ?len subs) \<le> sum_list (map ?len entries)"
    unfolding subs under by (simp add: sum_list_filter_le_nat)
  ultimately show "((pfx @ name @ ''/'', subs), (pfx, entries))
      \<in> measure (\<lambda>(pfx, entries). sum_list (map (\<lambda>e. length (PathName e)) entries) - length pfx)"
    by simp
qed

declare tree_objects.simps [simp del]

text \<open>
  The tree writer on a store: the objects are written in order, an object that already
  exists is no error, and the id of the root tree is returned.
\<close>

definition tree_writer :: "store \<Rightarrow> string \<Rightarrow> IndexEntry list \<Rightarrow> Sha1 \<times> store" where
  "tree_writer st pfx entries =
     (case tree_objects pfx entries of
        (tid, objs) \<Rightarrow> (tid, fold (\<lambda>(kind, bytes) s. snd (WriteObject s kind bytes)) objs st))"

text \<open>The blob of a string, as the test's \<^verbatim>\<open>hashString\<close> hashes it.\<close>

definition hashString :: "string \<Rightarrow> Sha1" where
  "hashString str = HashObject ''blob'' str"

section \<open>Notions used in the statements\<close>

text \<open>The refs \<open>v0\<close> put before the refs of a result; an error stays the error.\<close>

definition prepend :: "Ref list \<Rightarrow> error + Ref list \<Rightarrow> error + Ref list" where
  "prepend v0 r = (case r of Inl e \<Rightarrow> Inl e | Inr vals \<Rightarrow> Inr (v0 @ vals))"

text \<open>The diffs and the effects of the loop of DiffFiles over a list of entries.\<close>

definition diffs_of :: "Client \<Rightarrow> IndexEntry list \<Rightarrow> HashDiff list" where
  "diffs_of c es = fst (diffLoop c es ([], []))"

definition effects_of :: "Client \<Rightarrow> IndexEntry list \<Rightarrow> effect list" where
  "effects_of c es = snd (diffLoop c es ([], []))"

text \<open>
  The three ways the source finds no file for an entry: no file path or no file there,
  a failing \<^verbatim>\<open>Lstat\<close>, a directory.
\<close>

definition missingOnDisk :: "Client \<Rightarrow> IndexEntry \<Rightarrow> bool" where
  "missingOnDisk c idx =
     (case FilePath c (PathName idx) of
        Inl e \<Rightarrow> True
      | Inr f \<Rightarrow>
          (if Exists c f
           then (case Lstat c f of Inl e \<Rightarrow> True | Inr stat \<Rightarrow> IsDir (StatMode stat))
           else True))"

text \<open>A list of options \<^verbatim>\<open>-m\<close> and \<^verbatim>\<open>-F\<close>, each with its value.\<close>

fun messagePairs :: "string list \<Rightarrow> bool" where
  "messagePairs [] = True"
| "messagePairs [a] = False"
| "messagePairs (a # v # rest) = ((a = ''-m'' \<or> a = ''-F'') \<and> messagePairs rest)"

section \<open>A small repository\<close>

text \<open>
  A client for the concrete runs below: the git directory \<^verbatim>\<open>.git\<close> holds the branch
  \<^verbatim>\<open>refs/heads/master\<close> and a symbolic \<^verbatim>\<open>HEAD\<close> that points at the branch
  \<^verbatim>\<open>refs/heads/topic\<close>, which does not exist; the index has the file \<^verbatim>\<open>foo\<close>, which is on
  disk as a regular file, and \<^verbatim>\<open>gone\<close>, which is not on disk.
\<close>

definition demo_sha :: Sha1 where
  "demo_sha = ''0123456789abcdefghij''"

definition other_sha :: Sha1 where
  "other_sha = ''ABCDEFGHIJ0123456789''"

definition foo_entry :: IndexEntry where
  "foo_entry = \<lparr>PathName = ''foo'', Mode = ModeBlob, Fsize = 4, Sha1 = demo_sha\<rparr>"

definition gone_entry :: IndexEntry where
  "gone_entry = \<lparr>PathName = ''gone'', Mode = ModeBlob, Fsize = 7, Sha1 = other_sha\<rparr>"

definition foo_stat :: FileInfo where
  "foo_stat = \<lparr>StatMode = 0x1A4, StatSize = 4\<rparr>"

definition demo_client :: Client where
  "demo_client =
     \<lparr>GitDir = ''.git'',
      Exists = (\<lambda>f. f = ''.git/refs/heads/master'' \<or> f = ''.git/HEAD'' \<or> f = ''foo''),
      ReadFile = (\<lambda>f. if f = ''.git/refs/heads/master'' then Inr ''303132333435363738396162636465666768696a''
                       else if f = ''.git/HEAD'' then Inr ''ref: refs/heads/topic''
                       else Inl (Failure ''no such file'')),
      ReadDir = (\<lambda>d. if d = ''.git/refs/heads'' then Inr [''master'']
                      else if d = ''.git/refs/tags'' then Inr []
                      else Inl (Failure ''no such directory'')),
      Walk = (\<lambda>root. if root = ''.git/refs''
                      then [(''.git/refs'', Some True), (''.git/refs/heads'', Some True),
                            (''.git/refs/heads/master'', Some False), (''.git/refs/tags'', Some True)]
                      else [(root, None)]),
      SymbolicRefGet = (\<lambda>n. if n = ''HEAD'' then Inr ''refs/heads/topic''
                             else Inl (Failure ''not a symbolic ref'')),
      RefSpecSha1 = (\<lambda>r. if r = ''refs/heads/master'' then Inr demo_sha
                          else Inl (Failure ''no such ref'')),
      Sha1FromString = (\<lambda>s. if s = ''303132333435363738396162636465666768696a'' then Inr demo_sha
                             else Inl (Failure ''not a hash'')),
      Sha1Type = (\<lambda>h. ''commit''),
      RevParse = (\<lambda>args. Inl (Failure ''no such revision'')),
      GetHeadCommit = Inl (Failure ''no such ref''),
      GetHeadID = Inl (Failure ''no such ref''),
      WriteTree = ''6a09c59ce8eb1b5b4f89450103e67ff9b3a3b1ae'',
      CommitTree = (\<lambda>args. ''commit'' @ concat args),
      LsFiles = (\<lambda>opts paths. Inr [foo_entry, gone_entry]),
      FilePath = (\<lambda>p. Inr p),
      Lstat = (\<lambda>f. if f = ''foo'' then Inr foo_stat else Inl (Failure ''no such file'')),
      CompareStat = (\<lambda>idx f. None),
      HashFile = (\<lambda>kind f. if f = ''foo'' then Inr demo_sha else Inl (Failure ''no such file''))\<rparr>"

definition demo_opts :: ShowRefOptions where
  "demo_opts =
     \<lparr>IncludeHead = True, Tags = False, Heads = False, Dereference = False, Sha1Only = False,
      Verify = False, Abbrev = 0, Quiet = False, ExcludeExisting = []\<rparr>"

definition demo_diff_opts :: DiffFilesOptions where
  "demo_diff_opts = \<lparr>Patch = False, NumContextLines = 0, Raw = True, ExitCode = False\<rparr>"

text \<open>The index of the test case "a file sandwiched between 2 trees" of the tree writer.\<close>

definition sandwich_index :: "IndexEntry list" where
  "sandwich_index =
     [\<lparr>PathName = ''bar/bar'', Mode = ModeBlob, Fsize = 4, Sha1 = hashString (''bar'' @ [CHR 0x0A])\<rparr>,
      \<lparr>PathName = ''baz'', Mode = ModeBlob, Fsize = 4, Sha1 = hashString (''baz'' @ [CHR 0x0A])\<rparr>,
      \<lparr>PathName = ''foo/foo'', Mode = ModeBlob, Fsize = 4, Sha1 = hashString (''foo'' @ [CHR 0x0A])\<rparr>]"

text \<open>
  Variants of the repository: one where the content of \<^verbatim>\<open>foo\<close> has changed while its stat
  data still agrees with the index, one where the stat data disagrees while the content is
  the one of the index, one where \<^verbatim>\<open>HEAD\<close> resolves, one whose index cannot be listed.
\<close>

definition stat_match_client :: Client where
  "stat_match_client =
     demo_client\<lparr>LsFiles := (\<lambda>opts paths. Inr [foo_entry]),
                 HashFile := (\<lambda>kind f. Inr other_sha)\<rparr>"

definition stat_mismatch_client :: Client where
  "stat_mismatch_client =
     demo_client\<lparr>LsFiles := (\<lambda>opts paths. Inr [foo_entry]),
                 CompareStat := (\<lambda>idx f. Some (Failure ''mtime changed''))\<rparr>"

definition resolved_client :: Client where
  "resolved_client =
     demo_client\<lparr>GetHeadCommit := Inr demo_sha,
                 GetHeadID := Inr ''0123456789012345678901234567890123456789''\<rparr>"

definition no_index_client :: Client where
  "no_index_client = demo_client\<lparr>LsFiles := (\<lambda>opts paths. Inl (Failure ''no index''))\<rparr>"

definition master_ref :: Ref where
  "master_ref = \<lparr>Name = ''refs/heads/master'', Value = demo_sha\<rparr>"

section \<open>Properties of the string functions\<close>

lemma HasSuffix_iff: "HasSuffix s suf \<longleftrightarrow> (\<exists>pre. s = pre @ suf)"
proof
  assume "HasSuffix s suf"
  then have "drop (length s - length suf) s = suf"
    by (simp add: HasSuffix_def)
  then have "s = take (length s - length suf) s @ suf"
    by (metis append_take_drop_id)
  then show "\<exists>pre. s = pre @ suf" ..
next
  assume "\<exists>pre. s = pre @ suf"
  then obtain pre where "s = pre @ suf" ..
  then show "HasSuffix s suf"
    by (simp add: HasSuffix_def)
qed

lemma HasPrefix_iff: "HasPrefix s pre \<longleftrightarrow> (\<exists>suf. s = pre @ suf)"
proof
  assume "HasPrefix s pre"
  then have "take (length pre) s = pre"
    by (simp add: HasPrefix_def)
  then have "s = pre @ drop (length pre) s"
    by (metis append_take_drop_id)
  then show "\<exists>suf. s = pre @ suf" ..
next
  assume "\<exists>suf. s = pre @ suf"
  then obtain suf where "s = pre @ suf" ..
  then show "HasPrefix s pre"
    by (simp add: HasPrefix_def)
qed

lemma HasPrefix_prefix: "HasPrefix s p \<longleftrightarrow> prefix p s"
  by (auto simp: HasPrefix_iff prefix_def)

lemma HasSuffix_suffix: "HasSuffix s x \<longleftrightarrow> suffix x s"
  by (auto simp: HasSuffix_iff suffix_def)

lemma TrimSuffix_byte:
  "TrimSuffix r [c] = (if r \<noteq> [] \<and> last r = c then butlast r else r)"
proof (cases "r \<noteq> [] \<and> last r = c")
  case True
  then have r: "r = butlast r @ [c]"
    by (metis append_butlast_last_id)
  then have "HasSuffix r [c]"
    using HasSuffix_iff by blast
  moreover have "take (length r - 1) r = butlast r"
    by (simp add: butlast_conv_take)
  ultimately show ?thesis
    using True by (simp add: TrimSuffix_def)
next
  case False
  then have "\<not> HasSuffix r [c]"
    by (auto simp: HasSuffix_iff)
  with False show ?thesis
    by (auto simp: TrimSuffix_def)
qed

section \<open>Ref.Matches\<close>

text \<open>
  Claim C6. For every Ref \<open>r\<close> and every pattern string \<open>p\<close>, \<open>Matches r p\<close> is true if
  and only if the name of \<open>r\<close> equals \<open>p\<close> or the name ends with the string \<^verbatim>\<open>/\<close>
  followed by \<open>p\<close>: the pattern is compared byte for byte, never expanded as a glob or a
  regular expression.
\<close>

theorem Matches_exact_or_slash_suffix:
  "Matches r p \<longleftrightarrow> Name r = p \<or> (\<exists>pre. Name r = pre @ ''/'' @ p)"
  by (simp add: Matches_def HasSuffix_iff)

section \<open>RefSpec.String and RefSpec.File\<close>

subsection \<open>The table of encodings\<close>

lemma enc_nonempty: "\<forall>e\<in>set space_encodings. e \<noteq> []"
  by code_simp

lemma enc_last: "\<forall>e\<in>set space_encodings. last e \<noteq> CHR 0x00"
  by code_simp

lemma enc_prefix_free:
  "\<forall>e\<in>set space_encodings. \<forall>e'\<in>set space_encodings. HasPrefix e e' \<longrightarrow> e = e'"
  by code_simp

lemma enc_suffix_free:
  "\<forall>e\<in>set space_encodings. \<forall>e'\<in>set space_encodings. HasSuffix e e' \<longrightarrow> e = e'"
  by code_simp

lemma enc_no_overlap:
  "\<forall>e\<in>set space_encodings. \<forall>e'\<in>set space_encodings. hd e \<notin> set (tl e')"
  by code_simp


subsection \<open>Leading and trailing white space\<close>

lemma leading_space_enc:
  assumes "e \<in> set space_encodings" and "prefix e s"
  shows "leading_space s = length e"
proof -
  from assms have "\<not> (\<forall>x\<in>set space_encodings. \<not> HasPrefix s x)"
    by (auto simp: HasPrefix_prefix)
  then obtain e' where f: "find (HasPrefix s) space_encodings = Some e'"
    by (cases "find (HasPrefix s) space_encodings") (auto simp: find_None_iff)
  then have e': "e' \<in> set space_encodings" "prefix e' s"
    by (auto simp: find_Some_iff HasPrefix_prefix)
  from assms(2) e'(2) have "prefix e e' \<or> prefix e' e"
    by (rule prefix_same_cases)
  then have "e = e'"
    using enc_prefix_free assms(1) e'(1) by (auto simp: HasPrefix_prefix)
  with f show ?thesis
    by (simp add: leading_space_def)
qed

lemma leading_space_none:
  assumes "\<forall>e\<in>set space_encodings. \<not> prefix e s"
  shows "leading_space s = 0"
proof -
  from assms have "find (HasPrefix s) space_encodings = None"
    by (simp add: find_None_iff HasPrefix_prefix)
  then show ?thesis
    by (simp add: leading_space_def)
qed

lemma trailing_space_enc:
  assumes "e \<in> set space_encodings" and "suffix e s"
  shows "trailing_space s = length e"
proof -
  from assms have "\<not> (\<forall>x\<in>set space_encodings. \<not> HasSuffix s x)"
    by (auto simp: HasSuffix_suffix)
  then obtain e' where f: "find (HasSuffix s) space_encodings = Some e'"
    by (cases "find (HasSuffix s) space_encodings") (auto simp: find_None_iff)
  then have e': "e' \<in> set space_encodings" "suffix e' s"
    by (auto simp: find_Some_iff HasSuffix_suffix)
  from assms(2) e'(2) have "suffix e e' \<or> suffix e' e"
    by (rule suffix_same_cases)
  then have "e = e'"
    using enc_suffix_free assms(1) e'(1) by (auto simp: HasSuffix_suffix)
  with f show ?thesis
    by (simp add: trailing_space_def)
qed

lemma trailing_space_none:
  assumes "\<forall>e\<in>set space_encodings. \<not> suffix e s"
  shows "trailing_space s = 0"
proof -
  from assms have "find (HasSuffix s) space_encodings = None"
    by (simp add: find_None_iff HasSuffix_suffix)
  then show ?thesis
    by (simp add: trailing_space_def)
qed

lemma TrimLeftSpace_enc:
  assumes "e \<in> set space_encodings"
  shows "TrimLeftSpace (e @ s) = TrimLeftSpace s"
proof -
  have "leading_space (e @ s) = length e"
    using assms by (rule leading_space_enc) simp
  moreover have "0 < length e"
    using assms enc_nonempty by auto
  ultimately show ?thesis
    by (subst TrimLeftSpace.simps) simp
qed

lemma TrimLeftSpace_none:
  assumes "\<forall>e\<in>set space_encodings. \<not> prefix e s"
  shows "TrimLeftSpace s = s"
  using leading_space_none [OF assms] by (subst TrimLeftSpace.simps) simp

lemma TrimRightSpace_enc:
  assumes "e \<in> set space_encodings"
  shows "TrimRightSpace (s @ e) = TrimRightSpace s"
proof -
  have "trailing_space (s @ e) = length e"
    using assms by (rule trailing_space_enc) (simp add: suffix_def)
  moreover have "0 < length e"
    using assms enc_nonempty by auto
  ultimately show ?thesis
    by (subst TrimRightSpace.simps) simp
qed

lemma TrimRightSpace_none:
  assumes "\<forall>e\<in>set space_encodings. \<not> suffix e s"
  shows "TrimRightSpace s = s"
  using trailing_space_none [OF assms] by (subst TrimRightSpace.simps) simp

lemma TrimLeftSpace_Nil [simp]: "TrimLeftSpace [] = []"
  by (rule TrimLeftSpace_none) (use enc_nonempty in auto)

lemma TrimRightSpace_Nil [simp]: "TrimRightSpace [] = []"
  by (rule TrimRightSpace_none) (use enc_nonempty in auto)

text \<open>
  No encoding starts inside \<open>r\<close> and ends inside a following encoding: the bytes after the
  first of an encoding are continuation bytes, and no encoding starts with one.
\<close>

lemma no_prefix_across:
  assumes e: "e \<in> set space_encodings" and e': "e' \<in> set space_encodings"
    and r: "r \<noteq> []" and none: "\<not> prefix e' r" and p: "prefix e' (r @ e)"
  shows False
proof -
  from p none obtain x where x: "e' = r @ x" "prefix x e" "x \<noteq> []"
    by (metis prefix_append append.right_neutral prefix_order.eq_refl)
  from e enc_nonempty have "e \<noteq> []" by auto
  with x have "hd x = hd e"
    by (metis append_Cons hd_append2 list.sel(1) neq_Nil_conv prefix_def)
  moreover from x r have "hd x \<in> set (tl e')"
    by (cases r; cases x) auto
  ultimately show False
    using enc_no_overlap e e' by auto
qed

lemma TrimLeftSpace_append_enc:
  assumes e: "e \<in> set space_encodings"
  shows "TrimLeftSpace (r @ e) = (if TrimLeftSpace r = [] then [] else TrimLeftSpace r @ e)"
proof (induction r rule: length_induct)
  case (1 r)
  show ?case
  proof (cases "\<exists>e1\<in>set space_encodings. prefix e1 r")
    case True
    then obtain e1 r' where e1: "e1 \<in> set space_encodings" and r: "r = e1 @ r'"
      by (auto simp: prefix_def)
    from e1 enc_nonempty have "length r' < length r"
      by (auto simp: r)
    with 1 have "TrimLeftSpace (r' @ e) = (if TrimLeftSpace r' = [] then [] else TrimLeftSpace r' @ e)"
      by blast
    then show ?thesis
      using TrimLeftSpace_enc [OF e1, of r'] TrimLeftSpace_enc [OF e1, of "r' @ e"]
      by (simp add: r)
  next
    case False
    then have t: "TrimLeftSpace r = r"
      by (intro TrimLeftSpace_none) blast
    show ?thesis
    proof (cases "r = []")
      case True
      then show ?thesis
        using TrimLeftSpace_enc [OF e, of "[]"] by simp
    next
      case ne: False
      have "\<forall>e'\<in>set space_encodings. \<not> prefix e' (r @ e)"
        using no_prefix_across [OF e _ ne] False by blast
      then have "TrimLeftSpace (r @ e) = r @ e"
        by (rule TrimLeftSpace_none)
      with t ne show ?thesis
        by simp
    qed
  qed
qed

lemma TrimSpace_append_enc:
  assumes "e \<in> set space_encodings"
  shows "TrimSpace (r @ e) = TrimSpace r"
  by (simp add: TrimSpace_def TrimLeftSpace_append_enc [OF assms] TrimRightSpace_enc [OF assms])

lemma TrimSpace_append_spaces:
  assumes "set ws \<subseteq> set space_encodings"
  shows "TrimSpace (r @ concat ws) = TrimSpace r"
  using assms
proof (induction ws rule: rev_induct)
  case Nil
  show ?case by simp
next
  case (snoc e ws)
  then have "TrimSpace ((r @ concat ws) @ e) = TrimSpace (r @ concat ws)"
    by (intro TrimSpace_append_enc) simp
  with snoc show ?case
    by simp
qed

lemma last_concat_spaces:
  assumes "set ws \<subseteq> set space_encodings" and "concat ws \<noteq> []"
  shows "last (concat ws) \<noteq> CHR 0x00"
  using assms
proof (induction ws rule: rev_induct)
  case Nil
  then show ?case by simp
next
  case (snoc e ws)
  then have "e \<noteq> []" "last e \<noteq> CHR 0x00"
    using enc_nonempty enc_last by auto
  then show ?case
    by simp
qed

lemma RefSpec_String_eq:
  "RefSpec_String r = TrimSpace (if r \<noteq> [] \<and> last r = CHR 0x00 then butlast r else r)"
  by (cases "r = []") (simp_all add: RefSpec_String_def TrimSuffix_byte TrimSpace_def)

lemma RefSpec_String_append_NUL:
  assumes "r = [] \<or> last r \<noteq> CHR 0x00"
  shows "RefSpec_String (r @ [CHR 0x00]) = RefSpec_String r"
  using assms by (auto simp: RefSpec_String_eq)

lemma RefSpec_String_append_spaces:
  assumes "r = [] \<or> last r \<noteq> CHR 0x00" and "set ws \<subseteq> set space_encodings"
  shows "RefSpec_String (r @ concat ws) = RefSpec_String r"
proof (cases "concat ws = []")
  case True
  then have "r @ concat ws = r" by (simp only: append_Nil2)
  then show ?thesis by (simp only:)
next
  case False
  then have "last (r @ concat ws) \<noteq> CHR 0x00"
    using last_concat_spaces [OF assms(2)] by simp
  then have "RefSpec_String (r @ concat ws) = TrimSpace (r @ concat ws)"
    by (simp add: RefSpec_String_eq)
  also have "\<dots> = TrimSpace r"
    by (rule TrimSpace_append_spaces [OF assms(2)])
  also have "\<dots> = RefSpec_String r"
    using assms(1) by (auto simp: RefSpec_String_eq)
  finally show ?thesis .
qed

text \<open>
  The closing sentence of claim C10, that a trailing NUL or white space never changes
  which ref file is read, fails where white space follows a NUL: \<^verbatim>\<open>TrimSuffix\<close> runs first
  and finds no NUL at the end, and \<^verbatim>\<open>TrimSpace\<close> then stops at the NUL. The RefSpec
  \<^verbatim>\<open>"refs/heads/master\x00"\<close> reads \<^verbatim>\<open>.git/refs/heads/master\<close>, and with one more blank the
  file whose name ends with the NUL byte.
\<close>

theorem RefSpec_File_NUL_then_space_counterexample:
  "RefSpec_File demo_client (''refs/heads/master'' @ [CHR 0x00]) = ''.git/refs/heads/master'' \<and>
   RefSpec_File demo_client (''refs/heads/master'' @ [CHR 0x00] @ '' '')
     = ''.git/refs/heads/master'' @ [CHR 0x00]"
  by code_simp

text \<open>
  Claim C10, amended. For every RefSpec \<open>r\<close>, \<open>RefSpec_String r\<close> is the underlying string
  with at most one trailing NUL byte removed and then leading and trailing white space
  trimmed, and the empty RefSpec yields the empty string; \<open>RefSpec_File\<close> always addresses
  the file by this normalized name. So on a RefSpec that does not end with a NUL byte, one
  more trailing NUL, or any trailing white space, never changes which ref file is read.
  (White space after a trailing NUL keeps the NUL in the name, and of two trailing NULs
  one stays.)
\<close>

theorem RefSpec_File_normalized:
  "RefSpec_String r = TrimSpace (if r \<noteq> [] \<and> last r = CHR 0x00 then butlast r else r) \<and>
   RefSpec_String [] = [] \<and>
   RefSpec_File c r = GitDirFile (GitDir c) (RefSpec_String r) \<and>
   (r = [] \<or> last r \<noteq> CHR 0x00 \<longrightarrow>
      RefSpec_File c (r @ [CHR 0x00]) = RefSpec_File c r \<and>
      (\<forall>ws. set ws \<subseteq> set space_encodings \<longrightarrow>
         RefSpec_File c (r @ concat ws) = RefSpec_File c r))"
proof (intro conjI impI allI)
  show "RefSpec_String r = TrimSpace (if r \<noteq> [] \<and> last r = CHR 0x00 then butlast r else r)"
    by (rule RefSpec_String_eq)
  show "RefSpec_String [] = []"
    by (simp add: RefSpec_String_def)
  show "RefSpec_File c r = GitDirFile (GitDir c) (RefSpec_String r)"
    by (simp add: RefSpec_File_def)
next
  assume "r = [] \<or> last r \<noteq> CHR 0x00"
  then show "RefSpec_File c (r @ [CHR 0x00]) = RefSpec_File c r"
    by (simp only: RefSpec_File_def RefSpec_String_append_NUL)
next
  fix ws
  assume "r = [] \<or> last r \<noteq> CHR 0x00" and "set ws \<subseteq> set space_encodings"
  then show "RefSpec_File c (r @ concat ws) = RefSpec_File c r"
    by (simp only: RefSpec_File_def RefSpec_String_append_spaces)
qed

theorem RefSpec_File_normalized_witness:
  "(''refs/heads/master'' = [] \<or> last ''refs/heads/master'' \<noteq> CHR 0x00) \<and>
   set [[CHR 0x20], [CHR 0xC2, CHR 0xA0], [CHR 0x0A]] \<subseteq> set space_encodings \<and>
   RefSpec_File demo_client (''refs/heads/master'' @ [CHR 0x00]) = ''.git/refs/heads/master'' \<and>
   RefSpec_File demo_client (''refs/heads/master'' @ [CHR 0x20, CHR 0xC2, CHR 0xA0, CHR 0x0A])
     = ''.git/refs/heads/master'' \<and>
   RefSpec_File demo_client ''refs/heads/master'' = ''.git/refs/heads/master''"
proof -
  have r: "''refs/heads/master'' = [] \<or> last ''refs/heads/master'' \<noteq> CHR 0x00"
    by simp
  have ws: "set [[CHR 0x20], [CHR 0xC2, CHR 0xA0], [CHR 0x0A]] \<subseteq> set space_encodings"
    by (simp add: space_encodings_def)
  have f: "RefSpec_File demo_client ''refs/heads/master'' = ''.git/refs/heads/master''"
    by code_simp
  note n = RefSpec_File_normalized [of "''refs/heads/master''" demo_client]
  from n r have 1: "RefSpec_File demo_client (''refs/heads/master'' @ [CHR 0x00])
      = RefSpec_File demo_client ''refs/heads/master''"
    by blast
  from n r ws have "RefSpec_File demo_client
        (''refs/heads/master'' @ concat [[CHR 0x20], [CHR 0xC2, CHR 0xA0], [CHR 0x0A]])
      = RefSpec_File demo_client ''refs/heads/master''"
    by blast
  then have 2: "RefSpec_File demo_client (''refs/heads/master'' @ [CHR 0x20, CHR 0xC2, CHR 0xA0, CHR 0x0A])
      = RefSpec_File demo_client ''refs/heads/master''"
    by simp
  show ?thesis
    using r ws 1 2 f by (simp only: simp_thms)
qed

section \<open>ShowRef\<close>

subsection \<open>The verify loop\<close>

lemma verifyRefs_missing:
  assumes "\<not> Exists c (GitDirFile (GitDir c) p)"
  shows "verifyRefs c opts (pre @ p # post) vals =
           (case verifyRefs c opts pre vals of Inl e \<Rightarrow> Inl e | Inr v \<Rightarrow> Inl (NotAValidRef p))"
  using assms
proof (induction pre arbitrary: vals)
  case Nil
  then show ?case by simp
next
  case (Cons q pre)
  then show ?case
    by (simp split: sum.splits)
qed

subsection \<open>The loops do not read IncludeHead\<close>

lemma getDeref_IncludeHead [simp]:
  "getDeref c (opts\<lparr>IncludeHead := b\<rparr>) ref = getDeref c opts ref"
  by (simp add: getDeref_def)

lemma appendRef_IncludeHead [simp]:
  "appendRef c (opts\<lparr>IncludeHead := b\<rparr>) ref vals = appendRef c opts ref vals"
  by (simp add: appendRef_def)

lemma matchPatterns_IncludeHead [simp]:
  "matchPatterns c (opts\<lparr>IncludeHead := b\<rparr>) ref ps vals = matchPatterns c opts ref ps vals"
  by (induction ps) simp_all

lemma showOne_IncludeHead [simp]:
  "showOne c (opts\<lparr>IncludeHead := b\<rparr>) ps ref vals = showOne c opts ps ref vals"
  by (simp add: showOne_def)

lemma verifyRefs_IncludeHead [simp]:
  "verifyRefs c (opts\<lparr>IncludeHead := b\<rparr>) ps vals = verifyRefs c opts ps vals"
  by (induction ps arbitrary: vals) (simp_all split: sum.splits)

lemma walkRefs_IncludeHead [simp]:
  "walkRefs c (opts\<lparr>IncludeHead := b\<rparr>) ps ws vals = walkRefs c opts ps ws vals"
proof (induction ws arbitrary: vals)
  case Nil
  show ?case by simp
next
  case (Cons w ws)
  obtain path info where w: "w = (path, info)" by (cases w)
  show ?case
    unfolding w by (simp add: Cons.IH split: option.splits sum.splits)
qed

lemma listRefs_IncludeHead [simp]:
  "listRefs c (opts\<lparr>IncludeHead := b\<rparr>) ps dir names vals = listRefs c opts ps dir names vals"
  by (induction names arbitrary: vals) (simp_all split: sum.splits)

lemma readAndList_IncludeHead [simp]:
  "readAndList c (opts\<lparr>IncludeHead := b\<rparr>) ps kind vals = readAndList c opts ps kind vals"
  by (simp add: readAndList_def split: sum.splits)

subsection \<open>The loops only append\<close>

lemma prepend_simps [simp]:
  "prepend v0 (Inl e) = Inl e" "prepend v0 (Inr vals) = Inr (v0 @ vals)"
  by (simp_all add: prepend_def)

lemma appendRef_prepend: "appendRef c opts ref (v0 @ vals) = prepend v0 (appendRef c opts ref vals)"
  by (simp add: appendRef_def split: sum.splits option.splits)

lemma matchPatterns_prepend:
  "matchPatterns c opts ref ps (v0 @ vals) = prepend v0 (matchPatterns c opts ref ps vals)"
  by (induction ps) (simp_all add: appendRef_prepend)

lemma showOne_prepend: "showOne c opts ps ref (v0 @ vals) = prepend v0 (showOne c opts ps ref vals)"
  by (simp add: showOne_def appendRef_prepend matchPatterns_prepend)

lemma walkRefs_prepend:
  "walkRefs c opts ps ws (v0 @ vals) = prepend v0 (walkRefs c opts ps ws vals)"
proof (induction ws arbitrary: vals)
  case Nil
  show ?case by simp
next
  case (Cons w ws)
  obtain path info where w: "w = (path, info)" by (cases w)
  show ?case
    unfolding w by (simp add: Cons.IH showOne_prepend split: option.splits sum.splits)
qed

lemma listRefs_prepend:
  "listRefs c opts ps dir names (v0 @ vals) = prepend v0 (listRefs c opts ps dir names vals)"
  by (induction names arbitrary: vals) (simp_all add: showOne_prepend split: sum.splits)

lemma readAndList_prepend:
  "readAndList c opts ps kind (v0 @ vals) = prepend v0 (readAndList c opts ps kind vals)"
  by (simp add: readAndList_def listRefs_prepend split: sum.splits)

lemma prepend_Nil [simp]: "prepend [] r = r"
  by (cases r) simp_all

lemma ShowRef_headRefs:
  assumes "\<not> Verify opts"
  shows "ShowRef c opts patterns =
           prepend (headRefs c opts) (ShowRef c (opts\<lparr>IncludeHead := False\<rparr>) patterns)"
proof -
  have h0: "headRefs c (opts\<lparr>IncludeHead := False\<rparr>) = []"
    by (simp add: headRefs_def)
  have w: "walkRefs c opts patterns ws (headRefs c opts) =
             prepend (headRefs c opts) (walkRefs c opts patterns ws [])" for ws
    using walkRefs_prepend [of c opts patterns ws "headRefs c opts" "[]"] by simp
  have l: "readAndList c opts patterns kind (headRefs c opts) =
             prepend (headRefs c opts) (readAndList c opts patterns kind [])" for kind
    using readAndList_prepend [of c opts patterns kind "headRefs c opts" "[]"] by simp
  have l2: "readAndList c opts patterns kind (headRefs c opts @ vs) =
             prepend (headRefs c opts) (readAndList c opts patterns kind vs)" for kind vs
    by (rule readAndList_prepend)
  show ?thesis
    using assms
    by (simp add: ShowRef_def h0 w l l2 split: sum.splits)
qed

subsection \<open>The small repository\<close>

lemma demo_fields [simp]:
  "GitDir demo_client = ''.git''"
  "Exists demo_client f = (f = ''.git/refs/heads/master'' \<or> f = ''.git/HEAD'' \<or> f = ''foo'')"
  "GetHeadCommit demo_client = Inl (Failure ''no such ref'')"
  "GetHeadID demo_client = Inl (Failure ''no such ref'')"
  "LsFiles demo_client opts paths = Inr [foo_entry, gone_entry]"
  "FilePath demo_client p = Inr p"
  "Lstat demo_client ''foo'' = Inr foo_stat"
  "CompareStat demo_client idx f = None"
  "HashFile demo_client kind ''foo'' = Inr demo_sha"
  by (simp_all add: demo_client_def)

lemma foo_stat_regular [simp]: "\<not> IsDir (StatMode foo_stat)"
  by (simp add: foo_stat_def IsDir_def)

text \<open>
  Claim C7. When the Verify option is set and a pattern of the list does not exactly name
  an existing ref file under the git directory, ShowRef returns an error and no refs: the
  fatal error \<^verbatim>\<open>not a valid ref\<close> for that pattern where the patterns before it went
  through, and otherwise the error that one of them has raised before. Patterns are not
  suffix-matched in this mode: the loop asks for the file of the pattern itself and never
  calls \<open>Matches\<close>.
\<close>

theorem ShowRef_verify_missing_pattern:
  assumes "Verify opts" and "\<not> Exists c (GitDirFile (GitDir c) p)"
  shows "(\<exists>e. ShowRef c opts (pre @ p # post) = Inl e) \<and>
         ShowRef c opts (pre @ p # post) =
           (case ShowRef c opts pre of Inl e \<Rightarrow> Inl e | Inr vals \<Rightarrow> Inl (NotAValidRef p))"
  using assms by (simp add: ShowRef_def verifyRefs_missing split: sum.splits)

theorem ShowRef_verify_missing_pattern_witness:
  "Verify (demo_opts\<lparr>Verify := True\<rparr>) \<and>
   \<not> Exists demo_client (GitDirFile (GitDir demo_client) ''master'') \<and>
   Matches master_ref ''master'' \<and>
   ShowRef demo_client (demo_opts\<lparr>Verify := True\<rparr>) [''refs/heads/master''] = Inr [master_ref] \<and>
   ShowRef demo_client (demo_opts\<lparr>Verify := True\<rparr>) ([''refs/heads/master''] @ ''master'' # [])
     = Inl (NotAValidRef ''master'')"
proof -
  have v: "Verify (demo_opts\<lparr>Verify := True\<rparr>)"
    by simp
  have x: "\<not> Exists demo_client (GitDirFile (GitDir demo_client) ''master'')"
    by (simp add: GitDirFile_def)
  have m: "Matches master_ref ''master''"
    by (simp add: Matches_def master_ref_def HasSuffix_def)
  have s: "ShowRef demo_client (demo_opts\<lparr>Verify := True\<rparr>) [''refs/heads/master''] = Inr [master_ref]"
    by code_simp
  from ShowRef_verify_missing_pattern [OF v x, of "[''refs/heads/master'']" "[]"] s
  have "ShowRef demo_client (demo_opts\<lparr>Verify := True\<rparr>) ([''refs/heads/master''] @ ''master'' # [])
     = Inl (NotAValidRef ''master'')"
    by simp
  with v x m s show ?thesis
    by (simp only: simp_thms)
qed

text \<open>
  Claim C8. When HEAD does not resolve to a commit (a symbolic ref whose target does not
  exist), ShowRef with the IncludeHead option returns what it returns without the option:
  HEAD is left out silently and the enumeration goes on, with no error of its own. HEAD is
  put before the other refs only when it resolves to a commit (and Verify is not set).
\<close>

theorem ShowRef_unresolved_head_omitted:
  "(\<forall>e. GetHeadCommit c = Inl e \<longrightarrow>
      ShowRef c opts patterns = ShowRef c (opts\<lparr>IncludeHead := False\<rparr>) patterns) \<and>
   (\<forall>h. GetHeadCommit c = Inr h \<and> IncludeHead opts \<and> \<not> Verify opts \<longrightarrow>
      ShowRef c opts patterns =
        prepend [\<lparr>Name = ''HEAD'', Value = h\<rparr>] (ShowRef c (opts\<lparr>IncludeHead := False\<rparr>) patterns))"
proof (intro conjI allI impI)
  fix e
  assume e: "GetHeadCommit c = Inl e"
  then have h: "headRefs c opts = []"
    by (simp add: headRefs_def)
  show "ShowRef c opts patterns = ShowRef c (opts\<lparr>IncludeHead := False\<rparr>) patterns"
  proof (cases "Verify opts")
    case True
    then show ?thesis by (simp add: ShowRef_def)
  next
    case False
    then show ?thesis by (simp add: ShowRef_headRefs [of opts c patterns] h)
  qed
next
  fix h
  assume a: "GetHeadCommit c = Inr h \<and> IncludeHead opts \<and> \<not> Verify opts"
  then have "headRefs c opts = [\<lparr>Name = ''HEAD'', Value = h\<rparr>]"
    by (simp add: headRefs_def)
  with a show "ShowRef c opts patterns =
        prepend [\<lparr>Name = ''HEAD'', Value = h\<rparr>] (ShowRef c (opts\<lparr>IncludeHead := False\<rparr>) patterns)"
    by (simp add: ShowRef_headRefs [of opts c patterns])
qed

theorem ShowRef_unresolved_head_omitted_witness:
  "GetHeadCommit demo_client = Inl (Failure ''no such ref'') \<and>
   IncludeHead demo_opts \<and>
   ShowRef demo_client (demo_opts\<lparr>IncludeHead := False\<rparr>) [] = Inr [master_ref] \<and>
   ShowRef demo_client demo_opts [] = Inr [master_ref] \<and>
   GetHeadCommit resolved_client = Inr demo_sha \<and>
   ShowRef resolved_client demo_opts [] = Inr [\<lparr>Name = ''HEAD'', Value = demo_sha\<rparr>, master_ref]"
proof -
  have g: "GetHeadCommit demo_client = Inl (Failure ''no such ref'')"
    by simp
  have i: "IncludeHead demo_opts" "\<not> Verify demo_opts"
    by (simp_all add: demo_opts_def)
  have s: "ShowRef demo_client (demo_opts\<lparr>IncludeHead := False\<rparr>) [] = Inr [master_ref]"
    by code_simp
  have g': "GetHeadCommit resolved_client = Inr demo_sha"
    by (simp add: resolved_client_def)
  have s': "ShowRef resolved_client (demo_opts\<lparr>IncludeHead := False\<rparr>) [] = Inr [master_ref]"
    by code_simp
  from ShowRef_unresolved_head_omitted [of demo_client demo_opts "[]"] g s
  have 1: "ShowRef demo_client demo_opts [] = Inr [master_ref]"
    by simp
  from ShowRef_unresolved_head_omitted [of resolved_client demo_opts "[]"] g' i s'
  have 2: "ShowRef resolved_client demo_opts [] = Inr [\<lparr>Name = ''HEAD'', Value = demo_sha\<rparr>, master_ref]"
    by simp
  from g i(1) s 1 g' 2 show ?thesis
    by (simp only: simp_thms)
qed

section \<open>DiffFiles\<close>

lemma diffEntry_state:
  "diffEntry c idx (val, effects) =
     (val @ fst (diffEntry c idx ([], [])), effects @ snd (diffEntry c idx ([], [])))"
  by (simp add: diffEntry_def split: sum.splits option.splits)

lemma diffLoop_state:
  "diffLoop c es (val, effects) = (val @ diffs_of c es, effects @ effects_of c es)"
proof (induction es arbitrary: val effects)
  case Nil
  show ?case by (simp add: diffs_of_def effects_of_def)
next
  case (Cons idx es)
  obtain v e where d: "diffEntry c idx ([], []) = (v, e)"
    by (cases "diffEntry c idx ([], [])")
  have "diffLoop c (idx # es) (val, effects) = diffLoop c es (val @ v, effects @ e)"
    using diffEntry_state [of c idx val effects] by (simp add: d)
  also have "\<dots> = ((val @ v) @ diffs_of c es, (effects @ e) @ effects_of c es)"
    by (rule Cons.IH)
  finally have 1: "diffLoop c (idx # es) (val, effects) =
      (val @ v @ diffs_of c es, effects @ e @ effects_of c es)"
    by simp
  have "diffLoop c (idx # es) ([], []) = diffLoop c es (v, e)"
    by (simp add: d)
  also have "\<dots> = (v @ diffs_of c es, e @ effects_of c es)"
    by (rule Cons.IH)
  finally have 2: "diffs_of c (idx # es) = v @ diffs_of c es"
    "effects_of c (idx # es) = e @ effects_of c es"
    by (simp_all add: diffs_of_def effects_of_def)
  show ?case
    unfolding 2 by (rule 1)
qed

lemma diffLoop_split:
  "diffLoop c (pre @ idx # post) ([], []) =
     (diffs_of c pre @ fst (diffEntry c idx ([], [])) @ diffs_of c post,
      effects_of c pre @ snd (diffEntry c idx ([], [])) @ effects_of c post)"
proof -
  have "diffLoop c (xs @ ys) st = diffLoop c ys (diffLoop c xs st)" for xs ys st
    by (induction xs arbitrary: st) simp_all
  then have "diffLoop c (pre @ idx # post) ([], []) =
      diffLoop c post (diffEntry c idx (diffLoop c pre ([], [])))"
    by simp
  also have "diffLoop c pre ([], []) = (diffs_of c pre, effects_of c pre)"
    by (simp add: diffs_of_def effects_of_def)
  also have "diffEntry c idx (diffs_of c pre, effects_of c pre) =
      (diffs_of c pre @ fst (diffEntry c idx ([], [])), effects_of c pre @ snd (diffEntry c idx ([], [])))"
    by (rule diffEntry_state)
  finally show ?thesis
    by (simp add: diffLoop_state)
qed

lemma DiffFiles_split:
  assumes "LsFiles c lsOptions paths = Inr (pre @ idx # post)"
  shows "DiffFiles c opt paths =
     (Inr (sort_key DiffName (diffs_of c pre @ fst (diffEntry c idx ([], [])) @ diffs_of c post)),
      effects_of c pre @ snd (diffEntry c idx ([], [])) @ effects_of c post)"
  using assms by (simp add: DiffFiles_def lsOptions_def diffLoop_split)

lemma diffEntry_missing:
  assumes "missingOnDisk c idx"
  shows "diffEntry c idx ([], []) = ([deletedDiff idx], [])"
  using assms by (auto simp: diffEntry_def missingOnDisk_def split: sum.splits if_splits)

lemma diffEntry_stat_mismatch:
  assumes "FilePath c (PathName idx) = Inr f" "Exists c f" "Lstat c f = Inr stat"
    "\<not> IsDir (StatMode stat)" "CompareStat c idx f = Some e"
  shows "diffEntry c idx ([], []) = ([changedDiff idx stat], [Logged f])"
  using assms by (simp add: diffEntry_def)

lemma diffEntry_stat_match:
  assumes "FilePath c (PathName idx) = Inr f" "Exists c f" "Lstat c f = Inr stat"
    "\<not> IsDir (StatMode stat)" "CompareStat c idx f = None"
  shows "diffEntry c idx ([], []) =
     (if HashFile c ''blob'' f = Inr (Sha1 idx) then [] else [changedDiff idx stat], [Hashed f])"
  using assms by (auto simp: diffEntry_def split: sum.splits)

lemma DiffFiles_result:
  "fst (DiffFiles c opt paths) =
     (case LsFiles c lsOptions paths of
        Inl e \<Rightarrow> Inl e
      | Inr es \<Rightarrow> Inr (sort_key DiffName (diffs_of c es)))"
  by (simp add: DiffFiles_def lsOptions_def diffs_of_def split: sum.splits prod.splits)

text \<open>
  Claim C5. For every index entry whose path is absent on disk, whose \<^verbatim>\<open>Lstat\<close> fails, or
  which is a directory on disk, DiffFiles emits a HashDiff whose file system side is the
  empty TreeEntry and whose file system size is 0, and goes on with the remaining entries.
  Such failures never make DiffFiles return an error: a failure to list the index is
  fatal, DiffFiles then returns that error and no diff, and it returns an error in no
  other case.
\<close>

theorem DiffFiles_missing_file:
  assumes "LsFiles c lsOptions paths = Inr (pre @ idx # post)" and "missingOnDisk c idx"
  shows "DiffFiles c opt paths =
           (Inr (sort_key DiffName
              (diffs_of c pre
               @ [HashDiff (PathName idx) (TreeEntry (Sha1 idx) (Mode idx)) emptyTreeEntry
                    (uint_conv (Fsize idx)) 0]
               @ diffs_of c post)),
            effects_of c pre @ effects_of c post) \<and>
         (\<forall>c' paths' e. LsFiles c' lsOptions paths' = Inl e \<longrightarrow>
            DiffFiles c' opt paths' = (Inl e, [])) \<and>
         (\<forall>c' paths' e. fst (DiffFiles c' opt paths') = Inl e \<longrightarrow>
            LsFiles c' lsOptions paths' = Inl e)"
proof (intro conjI)
  show "DiffFiles c opt paths =
           (Inr (sort_key DiffName
              (diffs_of c pre
               @ [HashDiff (PathName idx) (TreeEntry (Sha1 idx) (Mode idx)) emptyTreeEntry
                    (uint_conv (Fsize idx)) 0]
               @ diffs_of c post)),
            effects_of c pre @ effects_of c post)"
    using DiffFiles_split [OF assms(1), of opt] diffEntry_missing [OF assms(2)]
    by (simp add: deletedDiff_def)
  show "\<forall>c' paths' e. LsFiles c' lsOptions paths' = Inl e \<longrightarrow>
            DiffFiles c' opt paths' = (Inl e, [])"
    by (simp add: DiffFiles_def)
  show "\<forall>c' paths' e. fst (DiffFiles c' opt paths') = Inl e \<longrightarrow>
            LsFiles c' lsOptions paths' = Inl e"
    by (auto simp: DiffFiles_result split: sum.splits)
qed

theorem DiffFiles_missing_file_witness:
  "LsFiles demo_client lsOptions [] = Inr ([foo_entry] @ gone_entry # []) \<and>
   missingOnDisk demo_client gone_entry \<and>
   DiffFiles demo_client demo_diff_opts [] =
     (Inr [HashDiff ''gone'' (TreeEntry other_sha ModeBlob) emptyTreeEntry 7 0], [Hashed ''foo'']) \<and>
   LsFiles no_index_client lsOptions [] = Inl (Failure ''no index'') \<and>
   DiffFiles no_index_client demo_diff_opts [] = (Inl (Failure ''no index''), [])"
proof -
  have l: "LsFiles demo_client lsOptions [] = Inr ([foo_entry] @ gone_entry # [])"
    by simp
  have m: "missingOnDisk demo_client gone_entry"
    by (simp add: missingOnDisk_def gone_entry_def)
  have d: "diffs_of demo_client [foo_entry] = []" "effects_of demo_client [foo_entry] = [Hashed ''foo'']"
    "diffs_of demo_client [] = []" "effects_of demo_client [] = []"
    by (simp_all add: diffs_of_def effects_of_def diffEntry_def foo_entry_def)
  have n: "LsFiles no_index_client lsOptions [] = Inl (Failure ''no index'')"
    by (simp add: no_index_client_def)
  note t = DiffFiles_missing_file [OF l m, of demo_diff_opts]
  from t have 1: "DiffFiles demo_client demo_diff_opts [] =
     (Inr [HashDiff ''gone'' (TreeEntry other_sha ModeBlob) emptyTreeEntry 7 0], [Hashed ''foo''])"
    by (simp add: d gone_entry_def uint_conv_def)
  from t n have 2: "DiffFiles no_index_client demo_diff_opts [] = (Inl (Failure ''no index''), [])"
    by blast
  from l m 1 n 2 show ?thesis
    by (simp only: simp_thms)
qed

text \<open>
  Claim C3 fails on the code. Where the stat data of the file agrees with the index entry
  (\<^verbatim>\<open>CompareStat\<close> returns nil), DiffFiles does not skip the entry: it is then that it
  hashes the file, and it emits a diff when the hash differs. In \<open>stat_match_client\<close> the
  stat data of \<^verbatim>\<open>foo\<close> agrees and its content has changed: the file is hashed and a diff is
  emitted.
\<close>

theorem DiffFiles_stat_match_counterexample:
  "Lstat stat_match_client ''foo'' = Inr foo_stat \<and> IsRegular (StatMode foo_stat) \<and>
   CompareStat stat_match_client foo_entry ''foo'' = None \<and>
   DiffFiles stat_match_client demo_diff_opts [] =
     (Inr [HashDiff ''foo'' (TreeEntry demo_sha ModeBlob)
             (TreeEntry (replicate 20 (CHR 0x00)) ModeBlob) 4 4],
      [Hashed ''foo''])"
  by code_simp

text \<open>
  Claim C3, amended. For every index entry whose file exists on disk and is no directory,
  and whose stat data agrees with the fixed index entry, DiffFiles hashes the content of
  the file and compares the hash with the \<^verbatim>\<open>Sha1\<close> of the entry: it emits no diff for the
  entry when the two are equal, and one diff when they differ or the hashing fails.
\<close>

theorem DiffFiles_stat_match:
  assumes "LsFiles c lsOptions paths = Inr (pre @ idx # post)"
    and "FilePath c (PathName idx) = Inr f" and "Exists c f" and "Lstat c f = Inr stat"
    and "\<not> IsDir (StatMode stat)" and "CompareStat c idx f = None"
  shows "DiffFiles c opt paths =
           (Inr (sort_key DiffName
              (diffs_of c pre
               @ (if HashFile c ''blob'' f = Inr (Sha1 idx) then [] else [changedDiff idx stat])
               @ diffs_of c post)),
            effects_of c pre @ [Hashed f] @ effects_of c post)"
  using DiffFiles_split [OF assms(1), of opt] diffEntry_stat_match [OF assms(2-6)]
  by simp

theorem DiffFiles_stat_match_witness:
  "LsFiles demo_client lsOptions [] = Inr ([] @ foo_entry # [gone_entry]) \<and>
   FilePath demo_client (PathName foo_entry) = Inr ''foo'' \<and> Exists demo_client ''foo'' \<and>
   Lstat demo_client ''foo'' = Inr foo_stat \<and> \<not> IsDir (StatMode foo_stat) \<and>
   CompareStat demo_client foo_entry ''foo'' = None \<and>
   HashFile demo_client ''blob'' ''foo'' = Inr (Sha1 foo_entry) \<and>
   DiffFiles demo_client demo_diff_opts [] =
     (Inr (sort_key DiffName ([] @ [] @ diffs_of demo_client [gone_entry])),
      [] @ [Hashed ''foo''] @ effects_of demo_client [gone_entry])"
proof -
  have l: "LsFiles demo_client lsOptions [] = Inr ([] @ foo_entry # [gone_entry])"
    by simp
  have p: "FilePath demo_client (PathName foo_entry) = Inr ''foo''"
    by (simp add: foo_entry_def)
  have x: "Exists demo_client ''foo''"
    by simp
  have s: "Lstat demo_client ''foo'' = Inr foo_stat"
    by simp
  have d: "\<not> IsDir (StatMode foo_stat)"
    by simp
  have c: "CompareStat demo_client foo_entry ''foo'' = None"
    by simp
  have h: "HashFile demo_client ''blob'' ''foo'' = Inr (Sha1 foo_entry)"
    by (simp add: foo_entry_def)
  from DiffFiles_stat_match [OF l p x s d c, of demo_diff_opts] h
  have "DiffFiles demo_client demo_diff_opts [] =
     (Inr (sort_key DiffName ([] @ [] @ diffs_of demo_client [gone_entry])),
      [] @ [Hashed ''foo''] @ effects_of demo_client [gone_entry])"
    by (simp add: diffs_of_def effects_of_def)
  with l p x s d c h show ?thesis
    by (simp only: simp_thms)
qed

text \<open>
  Claim C4 fails on the code. Where the stat data disagrees with the index entry
  (\<^verbatim>\<open>CompareStat\<close> returns an error), DiffFiles logs the mismatch and emits the diff at
  once, without hashing the file. In \<open>stat_mismatch_client\<close> the stat data of \<^verbatim>\<open>foo\<close>
  disagrees and its content is the one of the index: a diff is emitted all the same, and
  nothing is hashed.
\<close>

theorem DiffFiles_stat_mismatch_counterexample:
  "Lstat stat_mismatch_client ''foo'' = Inr foo_stat \<and> IsRegular (StatMode foo_stat) \<and>
   CompareStat stat_mismatch_client foo_entry ''foo'' = Some (Failure ''mtime changed'') \<and>
   HashFile stat_mismatch_client ''blob'' ''foo'' = Inr (Sha1 foo_entry) \<and>
   DiffFiles stat_mismatch_client demo_diff_opts [] =
     (Inr [HashDiff ''foo'' (TreeEntry demo_sha ModeBlob)
             (TreeEntry (replicate 20 (CHR 0x00)) ModeBlob) 4 4],
      [Logged ''foo''])"
  by code_simp

text \<open>
  Claim C4, amended. For every index entry whose file exists on disk and is no directory,
  and whose stat data disagrees with the fixed index entry, DiffFiles emits a diff for the
  path, with the mode found on disk and the size of the file, and does not hash the file:
  a stat mismatch produces a diff also when the content is unchanged.
\<close>

theorem DiffFiles_stat_mismatch:
  assumes "LsFiles c lsOptions paths = Inr (pre @ idx # post)"
    and "FilePath c (PathName idx) = Inr f" and "Exists c f" and "Lstat c f = Inr stat"
    and "\<not> IsDir (StatMode stat)" and "CompareStat c idx f = Some e"
  shows "DiffFiles c opt paths =
           (Inr (sort_key DiffName (diffs_of c pre @ [changedDiff idx stat] @ diffs_of c post)),
            effects_of c pre @ [Logged f] @ effects_of c post)"
  using DiffFiles_split [OF assms(1), of opt] diffEntry_stat_mismatch [OF assms(2-6)]
  by simp

theorem DiffFiles_stat_mismatch_witness:
  "LsFiles stat_mismatch_client lsOptions [] = Inr ([] @ foo_entry # []) \<and>
   FilePath stat_mismatch_client (PathName foo_entry) = Inr ''foo'' \<and>
   Exists stat_mismatch_client ''foo'' \<and>
   Lstat stat_mismatch_client ''foo'' = Inr foo_stat \<and> \<not> IsDir (StatMode foo_stat) \<and>
   CompareStat stat_mismatch_client foo_entry ''foo'' = Some (Failure ''mtime changed'') \<and>
   DiffFiles stat_mismatch_client demo_diff_opts [] =
     (Inr [changedDiff foo_entry foo_stat], [Logged ''foo''])"
proof -
  have l: "LsFiles stat_mismatch_client lsOptions [] = Inr ([] @ foo_entry # [])"
    by (simp add: stat_mismatch_client_def)
  have p: "FilePath stat_mismatch_client (PathName foo_entry) = Inr ''foo''"
    by (simp add: stat_mismatch_client_def foo_entry_def)
  have x: "Exists stat_mismatch_client ''foo''"
    by (simp add: stat_mismatch_client_def)
  have s: "Lstat stat_mismatch_client ''foo'' = Inr foo_stat"
    by (simp add: stat_mismatch_client_def)
  have d: "\<not> IsDir (StatMode foo_stat)"
    by simp
  have c: "CompareStat stat_mismatch_client foo_entry ''foo'' = Some (Failure ''mtime changed'')"
    by (simp add: stat_mismatch_client_def)
  from DiffFiles_stat_mismatch [OF l p x s d c, of demo_diff_opts]
  have "DiffFiles stat_mismatch_client demo_diff_opts [] =
     (Inr [changedDiff foo_entry foo_stat], [Logged ''foo''])"
    by (simp add: diffs_of_def effects_of_def)
  with l p x s d c show ?thesis
    by (simp only: simp_thms)
qed

section \<open>Commit\<close>

lemma messagePairs_append:
  "messagePairs xs \<Longrightarrow> messagePairs (xs @ ys) = messagePairs ys"
  by (induction xs rule: messagePairs.induct) simp_all

lemma take2_drop:
  assumes "idx + 2 \<le> length xs"
  shows "take 2 (drop idx xs) = [xs ! idx, xs ! Suc idx]"
proof -
  from assms have "idx < length xs" and "Suc idx < length xs"
    by simp_all
  then have "drop idx xs = xs ! idx # xs ! Suc idx # drop (Suc (Suc idx)) xs"
    by (simp add: Cons_nth_drop_Suc)
  then show ?thesis
    by (simp add: numeral_2_eq_2)
qed

text \<open>The messages are options with their values, wherever the values were read.\<close>

lemma collectMessages_pairs:
  assumes "collectMessages args spare idxs ms = Inr ms'" and "messagePairs ms"
    and "\<forall>idx \<in> set idxs. idx < length args"
  shows "messagePairs ms'"
  using assms
proof (induction idxs arbitrary: ms)
  case Nil
  then show ?case by simp
next
  case (Cons idx idxs)
  show ?case
  proof (cases "args ! idx = ''-m'' \<or> args ! idx = ''-F''")
    case False
    with Cons show ?thesis by simp
  next
    case True
    with Cons.prems(1) have le: "idx + 2 \<le> length (args @ spare)"
      by (simp split: if_splits)
    from Cons.prems(3) have i: "(args @ spare) ! idx = args ! idx"
      by (simp add: nth_append)
    from True Cons.prems(1) le
    have "collectMessages args spare idxs (ms @ [args ! idx, (args @ spare) ! Suc idx]) = Inr ms'"
      using take2_drop [OF le] by (simp add: i)
    moreover have "messagePairs (ms @ [args ! idx, (args @ spare) ! Suc idx])"
      using True Cons.prems(2) by (simp add: messagePairs_append)
    moreover have "\<forall>idx \<in> set idxs. idx < length args"
      using Cons.prems(3) by simp
    ultimately show ?thesis
      by (rule Cons.IH)
  qed
qed

lemma collectMessages_total:
  assumes "\<forall>idx \<in> set idxs. args ! idx = ''-m'' \<or> args ! idx = ''-F''
             \<longrightarrow> idx + 2 \<le> length args + length spare"
  shows "\<exists>ms'. collectMessages args spare idxs ms = Inr ms'"
  using assms by (induction idxs arbitrary: ms) auto

lemma collectMessages_panic:
  assumes "idx \<in> set idxs" and "args ! idx = ''-m'' \<or> args ! idx = ''-F''"
    and "\<not> idx + 2 \<le> length args + length spare"
  shows "collectMessages args spare idxs ms = Inl (Panic ''slice bounds out of range'')"
  using assms
proof (induction idxs arbitrary: ms)
  case Nil
  then show ?case by simp
next
  case (Cons i idxs)
  show ?case
  proof (cases "i = idx")
    case True
    with Cons.prems show ?thesis by simp
  next
    case False
    with Cons.prems have "idx \<in> set idxs" by simp
    then have "collectMessages args spare idxs ms' = Inl (Panic ''slice bounds out of range'')" for ms'
      using Cons.prems(2,3) by (rule Cons.IH)
    then show ?thesis by simp
  qed
qed

lemma CommitTree_parents_messages:
  "messagePairs ms \<Longrightarrow> CommitTree_parents (ms @ rest) = CommitTree_parents rest"
  by (induction ms rule: messagePairs.induct) auto

text \<open>
  The only slice expression that can go beyond the capacity is the one at the last
  argument, and only when the backing array has no spare element.
\<close>

lemma within_capacity:
  assumes "\<not> (args \<noteq> [] \<and> (last args = ''-m'' \<or> last args = ''-F'') \<and> spare = [])"
  shows "\<forall>idx \<in> set [0..<length args].
           args ! idx = ''-m'' \<or> args ! idx = ''-F'' \<longrightarrow> idx + 2 \<le> length args + length spare"
proof (intro ballI impI)
  fix idx
  assume i: "idx \<in> set [0..<length args]" and f: "args ! idx = ''-m'' \<or> args ! idx = ''-F''"
  then have ne: "args \<noteq> []" by auto
  show "idx + 2 \<le> length args + length spare"
  proof (cases "idx = length args - 1")
    case True
    with f ne have "last args = ''-m'' \<or> last args = ''-F''"
      by (simp add: last_conv_nth)
    with assms ne have "spare \<noteq> []" by blast
    then have "0 < length spare" by simp
    moreover from i have "idx < length args" by simp
    ultimately show ?thesis by arith
  next
    case False
    with i show ?thesis by auto
  qed
qed

lemma beyond_capacity:
  assumes "args \<noteq> []" and "last args = ''-m'' \<or> last args = ''-F''" and "spare = []"
  shows "collectMessages args spare [0..<length args] ms = Inl (Panic ''slice bounds out of range'')"
proof -
  have "length args - 1 \<in> set [0..<length args]"
    using assms(1) by simp
  moreover have "args ! (length args - 1) = ''-m'' \<or> args ! (length args - 1) = ''-F''"
    using assms(1,2) by (simp add: last_conv_nth)
  moreover have "\<not> (length args - 1) + 2 \<le> length args + length spare"
    using assms(1,3) by (cases args) auto
  ultimately show ?thesis
    by (rule collectMessages_panic)
qed

text \<open>
  Claim C9. Commit resolves the current HEAD commit before it builds the new commit. Every
  run of Commit that returns has handed to \<^verbatim>\<open>CommitTree\<close> the argument list that starts
  with \<^verbatim>\<open>-p\<close> and the HEAD commit when HEAD resolves, and has no \<^verbatim>\<open>-p\<close> when it does not,
  followed by the \<^verbatim>\<open>-m\<close> and \<^verbatim>\<open>-F\<close> options with their values and by the tree: the commit
  records exactly the HEAD commit as its sole parent, or no parent, and in no case more
  than one. The only run that does not return is the one that panics before any commit is
  built: the last argument is \<^verbatim>\<open>-m\<close> or \<^verbatim>\<open>-F\<close> and the slice has no spare capacity.
\<close>

theorem Commit_at_most_one_parent:
  "(if args \<noteq> [] \<and> (last args = ''-m'' \<or> last args = ''-F'') \<and> spare = []
    then Commit c args spare = Inl (Panic ''slice bounds out of range'')
    else \<exists>messages commitTreeArgs.
           messagePairs messages \<and>
           commitTreeArgs =
             (case GetHeadID c of Inr parentCommit \<Rightarrow> [''-p'', parentCommit] | Inl e \<Rightarrow> [])
               @ messages @ [WriteTree c] \<and>
           Commit c args spare =
             Inr (CommitTree c commitTreeArgs,
                  [GetHeadIDCall, WriteTreeCall, CommitTreeCall commitTreeArgs,
                   UpdateRefCall [''-m'', ''commit from go-git'', ''HEAD'', CommitTree c commitTreeArgs]]) \<and>
           CommitTree_parents commitTreeArgs =
             (case GetHeadID c of Inr parentCommit \<Rightarrow> [parentCommit] | Inl e \<Rightarrow> []) \<and>
           length (CommitTree_parents commitTreeArgs) \<le> 1)"
proof (cases "args \<noteq> [] \<and> (last args = ''-m'' \<or> last args = ''-F'') \<and> spare = []")
  case True
  then have "collectMessages args spare [0..<length args] [] = Inl (Panic ''slice bounds out of range'')"
    by (intro beyond_capacity) simp_all
  with True show ?thesis
    by (simp add: Commit_def)
next
  case False
  obtain ms where ms: "collectMessages args spare [0..<length args] [] = Inr ms"
    using collectMessages_total [OF within_capacity [OF False]] by blast
  then have mp: "messagePairs ms"
    by (rule collectMessages_pairs) simp_all
  then have p: "CommitTree_parents (ms @ [WriteTree c]) = []"
    by (simp add: CommitTree_parents_messages)
  let ?head = "case GetHeadID c of Inr parentCommit \<Rightarrow> [''-p'', parentCommit] | Inl e \<Rightarrow> []"
  have c: "Commit c args spare =
      Inr (CommitTree c (?head @ ms @ [WriteTree c]),
           [GetHeadIDCall, WriteTreeCall, CommitTreeCall (?head @ ms @ [WriteTree c]),
            UpdateRefCall [''-m'', ''commit from go-git'', ''HEAD'',
                           CommitTree c (?head @ ms @ [WriteTree c])]])"
    using ms by (simp add: Commit_def Let_def)
  have q: "CommitTree_parents (?head @ ms @ [WriteTree c]) =
      (case GetHeadID c of Inr parentCommit \<Rightarrow> [parentCommit] | Inl e \<Rightarrow> [])"
    using p by (cases "GetHeadID c") simp_all
  have "length (CommitTree_parents (?head @ ms @ [WriteTree c])) \<le> 1"
    unfolding q by (cases "GetHeadID c") simp_all
  with mp c q have "\<exists>messages commitTreeArgs.
           messagePairs messages \<and>
           commitTreeArgs = ?head @ messages @ [WriteTree c] \<and>
           Commit c args spare =
             Inr (CommitTree c commitTreeArgs,
                  [GetHeadIDCall, WriteTreeCall, CommitTreeCall commitTreeArgs,
                   UpdateRefCall [''-m'', ''commit from go-git'', ''HEAD'', CommitTree c commitTreeArgs]]) \<and>
           CommitTree_parents commitTreeArgs =
             (case GetHeadID c of Inr parentCommit \<Rightarrow> [parentCommit] | Inl e \<Rightarrow> []) \<and>
           length (CommitTree_parents commitTreeArgs) \<le> 1"
    by blast
  with False show ?thesis
    by (simp only: if_False)
qed

theorem Commit_at_most_one_parent_witness:
  "Commit resolved_client [''-m''] [] = Inl (Panic ''slice bounds out of range'') \<and>
   Commit resolved_client [''-m''] [''left over''] =
     Inr (CommitTree resolved_client
            [''-p'', ''0123456789012345678901234567890123456789'', ''-m'', ''left over'',
             ''6a09c59ce8eb1b5b4f89450103e67ff9b3a3b1ae''],
          [GetHeadIDCall, WriteTreeCall,
           CommitTreeCall
             [''-p'', ''0123456789012345678901234567890123456789'', ''-m'', ''left over'',
              ''6a09c59ce8eb1b5b4f89450103e67ff9b3a3b1ae''],
           UpdateRefCall [''-m'', ''commit from go-git'', ''HEAD'',
             CommitTree resolved_client
               [''-p'', ''0123456789012345678901234567890123456789'', ''-m'', ''left over'',
                ''6a09c59ce8eb1b5b4f89450103e67ff9b3a3b1ae'']]]) \<and>
   CommitTree_parents
     [''-p'', ''0123456789012345678901234567890123456789'', ''-m'', ''left over'',
      ''6a09c59ce8eb1b5b4f89450103e67ff9b3a3b1ae'']
     = [''0123456789012345678901234567890123456789''] \<and>
   Commit demo_client [''-m'', ''initial''] [] =
     Inr (CommitTree demo_client [''-m'', ''initial'', ''6a09c59ce8eb1b5b4f89450103e67ff9b3a3b1ae''],
          [GetHeadIDCall, WriteTreeCall,
           CommitTreeCall [''-m'', ''initial'', ''6a09c59ce8eb1b5b4f89450103e67ff9b3a3b1ae''],
           UpdateRefCall [''-m'', ''commit from go-git'', ''HEAD'',
             CommitTree demo_client
               [''-m'', ''initial'', ''6a09c59ce8eb1b5b4f89450103e67ff9b3a3b1ae'']]]) \<and>
   CommitTree_parents [''-m'', ''initial'', ''6a09c59ce8eb1b5b4f89450103e67ff9b3a3b1ae''] = []"
proof -
  have g: "GetHeadID resolved_client = Inr ''0123456789012345678901234567890123456789''"
    "WriteTree resolved_client = ''6a09c59ce8eb1b5b4f89450103e67ff9b3a3b1ae''"
    "GetHeadID demo_client = Inl (Failure ''no such ref'')"
    "WriteTree demo_client = ''6a09c59ce8eb1b5b4f89450103e67ff9b3a3b1ae''"
    by (simp_all add: resolved_client_def demo_client_def)
  have m: "collectMessages [''-m''] [''left over''] [0..<length [''-m'']] [] = Inr [''-m'', ''left over'']"
    "collectMessages [''-m'', ''initial''] [] [0..<length [''-m'', ''initial'']] []
       = Inr [''-m'', ''initial'']"
    by code_simp+
  from Commit_at_most_one_parent [of "[''-m'']" "[]" resolved_client]
  have 1: "Commit resolved_client [''-m''] [] = Inl (Panic ''slice bounds out of range'')"
    by simp
  from Commit_at_most_one_parent [of "[''-m'']" "[''left over'']" resolved_client]
  obtain ms cta where a: "cta = [''-p'', ''0123456789012345678901234567890123456789''] @ ms
        @ [''6a09c59ce8eb1b5b4f89450103e67ff9b3a3b1ae'']"
    and b: "Commit resolved_client [''-m''] [''left over''] =
        Inr (CommitTree resolved_client cta,
             [GetHeadIDCall, WriteTreeCall, CommitTreeCall cta,
              UpdateRefCall [''-m'', ''commit from go-git'', ''HEAD'', CommitTree resolved_client cta]])"
    and p: "CommitTree_parents cta = [''0123456789012345678901234567890123456789'']"
    by (auto simp: g)
  have "Commit resolved_client [''-m''] [''left over''] =
      Inr (CommitTree resolved_client
             ([''-p'', ''0123456789012345678901234567890123456789''] @ [''-m'', ''left over'']
                @ [''6a09c59ce8eb1b5b4f89450103e67ff9b3a3b1ae'']),
           [GetHeadIDCall, WriteTreeCall,
            CommitTreeCall ([''-p'', ''0123456789012345678901234567890123456789''] @ [''-m'', ''left over'']
                @ [''6a09c59ce8eb1b5b4f89450103e67ff9b3a3b1ae'']),
            UpdateRefCall [''-m'', ''commit from go-git'', ''HEAD'',
              CommitTree resolved_client
                ([''-p'', ''0123456789012345678901234567890123456789''] @ [''-m'', ''left over'']
                   @ [''6a09c59ce8eb1b5b4f89450103e67ff9b3a3b1ae''])]])"
    using m(1) by (simp add: Commit_def Let_def g del: upt.simps)
  with a b have ms: "ms = [''-m'', ''left over'']"
    by simp
  from b p have 2: "Commit resolved_client [''-m''] [''left over''] =
     Inr (CommitTree resolved_client
            [''-p'', ''0123456789012345678901234567890123456789'', ''-m'', ''left over'',
             ''6a09c59ce8eb1b5b4f89450103e67ff9b3a3b1ae''],
          [GetHeadIDCall, WriteTreeCall,
           CommitTreeCall
             [''-p'', ''0123456789012345678901234567890123456789'', ''-m'', ''left over'',
              ''6a09c59ce8eb1b5b4f89450103e67ff9b3a3b1ae''],
           UpdateRefCall [''-m'', ''commit from go-git'', ''HEAD'',
             CommitTree resolved_client
               [''-p'', ''0123456789012345678901234567890123456789'', ''-m'', ''left over'',
                ''6a09c59ce8eb1b5b4f89450103e67ff9b3a3b1ae'']]])"
    and 3: "CommitTree_parents
     [''-p'', ''0123456789012345678901234567890123456789'', ''-m'', ''left over'',
      ''6a09c59ce8eb1b5b4f89450103e67ff9b3a3b1ae'']
     = [''0123456789012345678901234567890123456789'']"
    unfolding a ms by simp_all
  have 4: "Commit demo_client [''-m'', ''initial''] [] =
     Inr (CommitTree demo_client [''-m'', ''initial'', ''6a09c59ce8eb1b5b4f89450103e67ff9b3a3b1ae''],
          [GetHeadIDCall, WriteTreeCall,
           CommitTreeCall [''-m'', ''initial'', ''6a09c59ce8eb1b5b4f89450103e67ff9b3a3b1ae''],
           UpdateRefCall [''-m'', ''commit from go-git'', ''HEAD'',
             CommitTree demo_client
               [''-m'', ''initial'', ''6a09c59ce8eb1b5b4f89450103e67ff9b3a3b1ae'']]])"
    using m(2) by (simp add: Commit_def Let_def g del: upt.simps)
  have 5: "CommitTree_parents [''-m'', ''initial'', ''6a09c59ce8eb1b5b4f89450103e67ff9b3a3b1ae''] = []"
    by simp
  from 1 2 3 4 5 show ?thesis
    by (simp only: simp_thms)
qed

section \<open>The tree writer on the vectors of its test\<close>

lemma tree_objects_Nil: "tree_objects pfx [] = (HashObject ''tree'' [], [(''tree'', [])])"
  by (simp add: tree_objects.simps)

text \<open>
  Claim C2. On an empty index the tree writer returns the fixed tree hash
  4b825dc642cb6eb9a060e54bf8d69288fbee4904, whatever the store holds: the tree has zero
  bytes, and what is hashed is the header \<^verbatim>\<open>"tree 0\0"\<close>.
\<close>

theorem tree_writer_empty_index:
  "fst (tree_writer st [] []) = sha1 (''tree 0'' @ [CHR 0x00]) \<and>
   Sha1_String (fst (tree_writer st [] [])) = ''4b825dc642cb6eb9a060e54bf8d69288fbee4904''"
proof -
  have "''tree'' @ '' '' @ digits 10 (int (length ([] :: string))) @ [CHR 0x00] @ []
      = ''tree 0'' @ [CHR 0x00]"
    by code_simp
  then have h: "HashObject ''tree'' [] = sha1 (''tree 0'' @ [CHR 0x00])"
    by (simp only: HashObject_def)
  have f: "fst (tree_writer st [] []) = HashObject ''tree'' []"
    by (simp add: tree_writer_def tree_objects_Nil)
  have "Sha1_String (sha1 (''tree 0'' @ [CHR 0x00])) = ''4b825dc642cb6eb9a060e54bf8d69288fbee4904''"
    by code_simp
  with h f show ?thesis
    by simp
qed

text \<open>
  Claim C1. For the index of the three entries (100644, \<^verbatim>\<open>bar/bar\<close>, blob of \<^verbatim>\<open>"bar\n"\<close>),
  (100644, \<^verbatim>\<open>baz\<close>, blob of \<^verbatim>\<open>"baz\n"\<close>) and (100644, \<^verbatim>\<open>foo/foo\<close>, blob of \<^verbatim>\<open>"foo\n"\<close>), a
  file between two subtrees, the tree writer with the empty prefix on a fresh empty object
  store returns exactly the tree hash 18a6e5a95bb59e96dba722025de6abc692661bb6.
\<close>

theorem tree_writer_file_between_two_trees:
  "Sha1_String (fst (tree_writer Map.empty [] sandwich_index))
     = ''18a6e5a95bb59e96dba722025de6abc692661bb6''"
  by code_simp

end
